theory Spec2Isabelle
  imports Main "HOL-Library.Word"
begin

unbundle bit_operations_syntax

section \<open>Data model\<close>

text \<open>
  A shallow embedding of \<^verbatim>\<open>pkg/controller/secret/secret_controller.go\<close> and of the
  String generator that follows it in the same source file.

  Go's \<^verbatim>\<open>string\<close> is a byte sequence and is modelled by \<^typ>\<open>string\<close>; a \<^verbatim>\<open>[]byte\<close> is a
  list of 8-bit words. A byte slice is modelled by its contents only. Go's \<^verbatim>\<open>int\<close> values
  (the requested length, the generated-field counter) are modelled by \<^typ>\<open>int\<close>: the code
  performs no arithmetic on them that could leave the 64-bit range.
\<close>

type_synonym byte = "8 word"

definition bytes_of_string :: "string \<Rightarrow> byte list" where
  "bytes_of_string s = map of_char s"

text \<open>
  Errors are values. The constructors name the place that produces the error:
  \<^verbatim>\<open>fmt.Errorf("duplicate element %s found", e)\<close> in \<^verbatim>\<open>ensureUniqueness\<close>, the error of
  \<^verbatim>\<open>rand.Read\<close>, the error of \<^verbatim>\<open>ParseByteLength\<close>, \<^verbatim>\<open>errors.New("SecretTypeNotSpecified")\<close>,
  the errors of the API client, and the error of \<^verbatim>\<open>Type.Validate\<close>.
\<close>

datatype error =
    DuplicateElement string
  | EntropyError string
  | LengthError string
  | SecretTypeNotSpecified
  | ClientError string
  | InvalidType string

text \<open>A Go function either panics or returns.\<close>

datatype 'a outcome = Panic string | Return 'a

text \<open>
  A Go map is \<^verbatim>\<open>nil\<close> (\<^const>\<open>None\<close>) or a finite map. Reading a nil map gives the zero
  value, deleting from it does nothing, assigning to it panics.
\<close>

type_synonym 'v gomap = "(string \<rightharpoonup> 'v) option"

definition map_lookup :: "'v gomap \<Rightarrow> string \<Rightarrow> 'v option" where
  "map_lookup m k = (case m of None \<Rightarrow> None | Some f \<Rightarrow> f k)"

definition map_index_string :: "string gomap \<Rightarrow> string \<Rightarrow> string" where
  "map_index_string m k = (case map_lookup m k of None \<Rightarrow> [] | Some v \<Rightarrow> v)"

definition map_index_bytes :: "(byte list) gomap \<Rightarrow> string \<Rightarrow> byte list" where
  "map_index_bytes m k = (case map_lookup m k of None \<Rightarrow> [] | Some v \<Rightarrow> v)"

definition map_assign :: "'v gomap \<Rightarrow> string \<Rightarrow> 'v \<Rightarrow> ('v gomap) outcome" where
  "map_assign m k v =
     (case m of
        None \<Rightarrow> Panic ''assignment to entry in nil map''
      | Some f \<Rightarrow> Return (Some (f(k \<mapsto> v))))"

definition map_delete :: "'v gomap \<Rightarrow> string \<Rightarrow> 'v gomap" where
  "map_delete m k = (case m of None \<Rightarrow> None | Some f \<Rightarrow> Some (f(k := None)))"

text \<open>
  The part of \<^verbatim>\<open>corev1.Secret\<close> that the controller reads and writes.
\<close>

record secret =
  Annotations :: "string gomap"
  Data :: "(byte list) gomap"

text \<open>
  \<^verbatim>\<open>reconcile.Result\<close>; \<^verbatim>\<open>RequeueAfter\<close> is a \<^verbatim>\<open>time.Duration\<close>, a count of nanoseconds.
\<close>

record result =
  Requeue :: bool
  RequeueAfter :: int

definition Result_zero :: result where
  "Result_zero = \<lparr>Requeue = False, RequeueAfter = 0\<rparr>"

definition Second :: int where
  "Second = 1000000000"

text \<open>
  The annotation key constants are declared elsewhere in the package; the model takes
  them as a parameter. They are pairwise different annotation keys.
\<close>

record annotation_keys =
  AnnotationSecretType :: string
  AnnotationSecretAutoGenerate :: string
  AnnotationSecretAutoGeneratedAt :: string
  AnnotationSecretRegenerate :: string
  AnnotationSecretSecure :: string
  AnnotationSecretLength :: string
  AnnotationSecretEncoding :: string
  AnnotationSecretTemplate :: string

definition distinct_keys :: "annotation_keys \<Rightarrow> bool" where
  "distinct_keys K =
     distinct [AnnotationSecretType K, AnnotationSecretAutoGenerate K,
               AnnotationSecretAutoGeneratedAt K, AnnotationSecretRegenerate K,
               AnnotationSecretSecure K, AnnotationSecretLength K,
               AnnotationSecretEncoding K, AnnotationSecretTemplate K]"

text \<open>
  The process-wide configuration read through viper, the function \<^verbatim>\<open>ParseByteLength\<close>
  (declared elsewhere in the package, taken as a parameter) and the entropy source:
  \<^verbatim>\<open>entropy i\<close> is what the \<open>i\<close>-th call of \<^verbatim>\<open>rand.Read\<close> meets, an error or a supply of
  random bytes from which the call fills its buffer.
\<close>

record config =
  keys :: annotation_keys
  RegenerateInsecure :: bool
  DefaultLength :: int
  DefaultEncoding :: string
  ParseByteLength :: "int \<Rightarrow> string \<Rightarrow> string + int \<times> bool"
  entropy :: "nat \<Rightarrow> string + (nat \<Rightarrow> byte)"

section \<open>Random value encoder\<close>

text \<open>
  \<^verbatim>\<open>rand.Read(b)\<close> fills all of \<open>b\<close> or returns an error.
\<close>

definition rand_Read :: "config \<Rightarrow> nat \<Rightarrow> nat \<Rightarrow> error + byte list" where
  "rand_Read C i n =
     (case entropy C i of
        Inl msg \<Rightarrow> Inl (EntropyError msg)
      | Inr f \<Rightarrow> Inr (map f [0..<n]))"

text \<open>The alphabets of \<^verbatim>\<open>encoding/base64\<close>, \<^verbatim>\<open>encoding/base32\<close> and \<^verbatim>\<open>encoding/hex\<close>.\<close>

definition encodeStd :: string where
  "encodeStd = ''ABCDEFGHIJKLMNOPQRSTUVWXYZabcdefghijklmnopqrstuvwxyz0123456789+/''"

definition encodeURL :: string where
  "encodeURL = ''ABCDEFGHIJKLMNOPQRSTUVWXYZabcdefghijklmnopqrstuvwxyz0123456789-_''"

definition encodeStd32 :: string where
  "encodeStd32 = ''ABCDEFGHIJKLMNOPQRSTUVWXYZ234567''"

definition hextable :: string where
  "hextable = ''0123456789abcdef''"

text \<open>
  \<^verbatim>\<open>base64.Encoding.EncodeToString\<close> with padding: three bytes make a 24-bit value that is
  cut into four 6-bit indices; a remainder of one or two bytes is padded with \<^verbatim>\<open>=\<close>.
  The indices are masked with \<^verbatim>\<open>0x3F\<close>, so the alphabet (64 characters) is never read
  out of range.
\<close>

definition sextet :: "string \<Rightarrow> 32 word \<Rightarrow> char" where
  "sextet al v = al ! unat (v AND 0x3F)"

fun base64_EncodeToString :: "string \<Rightarrow> byte list \<Rightarrow> string" where
  "base64_EncodeToString al (a # b # c # rest) =
     (let val = push_bit 16 (ucast a) OR push_bit 8 (ucast b) OR ucast c
      in sextet al (drop_bit 18 val) # sextet al (drop_bit 12 val)
         # sextet al (drop_bit 6 val) # sextet al val
         # base64_EncodeToString al rest)"
| "base64_EncodeToString al [a, b] =
     (let val = push_bit 16 (ucast a) OR push_bit 8 (ucast b)
      in [sextet al (drop_bit 18 val), sextet al (drop_bit 12 val),
          sextet al (drop_bit 6 val), CHR ''='']) "
| "base64_EncodeToString al [a] =
     (let val = push_bit 16 (ucast a)
      in [sextet al (drop_bit 18 val), sextet al (drop_bit 12 val), CHR ''='', CHR ''=''])"
| "base64_EncodeToString al [] = []"

text \<open>
  \<^verbatim>\<open>base32.StdEncoding.EncodeToString\<close>: five bytes make a 40-bit value that is cut into
  eight 5-bit indices; a remainder of 1, 2, 3 or 4 bytes yields 2, 4, 5 or 7 characters
  and is padded with \<^verbatim>\<open>=\<close> to eight.
\<close>

definition quintets :: "string \<Rightarrow> byte \<Rightarrow> byte \<Rightarrow> byte \<Rightarrow> byte \<Rightarrow> byte \<Rightarrow> string" where
  "quintets al a b c d e =
     (let val = (push_bit 32 (ucast a) OR push_bit 24 (ucast b) OR push_bit 16 (ucast c)
                 OR push_bit 8 (ucast d) OR ucast e) :: 64 word
      in map (\<lambda>i. al ! unat (drop_bit i val AND 0x1F)) [35, 30, 25, 20, 15, 10, 5, 0])"

fun base32_EncodeToString :: "string \<Rightarrow> byte list \<Rightarrow> string" where
  "base32_EncodeToString al (a # b # c # d # e # rest) =
     quintets al a b c d e @ base32_EncodeToString al rest"
| "base32_EncodeToString al [a, b, c, d] = take 7 (quintets al a b c d 0) @ ''=''"
| "base32_EncodeToString al [a, b, c] = take 5 (quintets al a b c 0 0) @ ''===''"
| "base32_EncodeToString al [a, b] = take 4 (quintets al a b 0 0 0) @ ''====''"
| "base32_EncodeToString al [a] = take 2 (quintets al a 0 0 0 0) @ ''======''"
| "base32_EncodeToString al [] = []"

text \<open>\<^verbatim>\<open>hex.EncodeToString\<close>: two lowercase digits for every byte.\<close>

fun hex_EncodeToString :: "byte list \<Rightarrow> string" where
  "hex_EncodeToString [] = []"
| "hex_EncodeToString (v # rest) =
     hextable ! unat (drop_bit 4 v) # hextable ! unat (v AND 0x0F) # hex_EncodeToString rest"

text \<open>
  The \<^verbatim>\<open>switch encoding\<close> of \<^verbatim>\<open>GenerateRandomString\<close>, for the cases that set
  \<^verbatim>\<open>encodedString\<close>; the case \<^verbatim>\<open>"raw"\<close> returns at once and is part of the function below.
\<close>

definition encodedString :: "string \<Rightarrow> byte list \<Rightarrow> string" where
  "encodedString encoding b =
     (if encoding = ''base64url'' then base64_EncodeToString encodeURL b
      else if encoding = ''base32'' then base32_EncodeToString encodeStd32 b
      else if encoding = ''hex'' then hex_EncodeToString b
      else base64_EncodeToString encodeStd b)"

text \<open>
  \<^verbatim>\<open>GenerateRandomString(length, encoding, lenBytes)\<close>. \<^verbatim>\<open>make([]byte, length)\<close> panics on a
  negative length, and the slice expression \<^verbatim>\<open>encodedString[0:length]\<close> panics when the
  encoded string is shorter than \<^verbatim>\<open>length\<close>. The last argument and the last component
  of the result count the calls of \<^verbatim>\<open>rand.Read\<close>.
\<close>

definition GenerateRandomString ::
  "config \<Rightarrow> int \<Rightarrow> string \<Rightarrow> bool \<Rightarrow> nat \<Rightarrow> (byte list \<times> error option \<times> nat) outcome" where
  "GenerateRandomString C len encoding lenBytes reads =
     (if len < 0 then Panic ''makeslice: len out of range''
      else
        (case rand_Read C reads (nat len) of
           Inl err \<Rightarrow> Return ([], Some err, Suc reads)
         | Inr b \<Rightarrow>
             if encoding = ''raw'' then Return (b, None, Suc reads)
             else if lenBytes
               then Return (bytes_of_string (encodedString encoding b), None, Suc reads)
             else if nat len \<le> length (encodedString encoding b)
               then Return (bytes_of_string (take (nat len) (encodedString encoding b)), None,
                            Suc reads)
             else Panic ''slice bounds out of range''))"

section \<open>Annotation accessors\<close>

text \<open>
  \<^verbatim>\<open>strconv.Itoa\<close>: the decimal digits of an integer, with a minus sign when negative.
\<close>

fun decimal :: "nat \<Rightarrow> string" where
  "decimal n =
     (if n < 10 then [''0123456789'' ! n]
      else decimal (n div 10) @ [''0123456789'' ! (n mod 10)])"

declare decimal.simps [simp del]

definition Itoa :: "int \<Rightarrow> string" where
  "Itoa i = (if i < 0 then CHR ''-'' # decimal (nat (- i)) else decimal (nat i))"

text \<open>
  The accessors return a value and an error; the error is always \<^verbatim>\<open>nil\<close>.
\<close>

definition GetLengthFromAnnotation ::
  "annotation_keys \<Rightarrow> int \<Rightarrow> string gomap \<Rightarrow> string \<times> error option" where
  "GetLengthFromAnnotation K fallback annotations =
     (case map_lookup annotations (AnnotationSecretLength K) of
        Some val \<Rightarrow> (val, None)
      | None \<Rightarrow> (Itoa fallback, None))"

definition getEncodingFromAnnotation ::
  "annotation_keys \<Rightarrow> string \<Rightarrow> string gomap \<Rightarrow> string \<times> error option" where
  "getEncodingFromAnnotation K fallback annotations =
     (case map_lookup annotations (AnnotationSecretEncoding K) of
        Some val \<Rightarrow> (val, None)
      | None \<Rightarrow> (fallback, None))"

definition getTemplateFromAnnotation ::
  "annotation_keys \<Rightarrow> string \<Rightarrow> string gomap \<Rightarrow> string \<times> error option" where
  "getTemplateFromAnnotation K fallback annotations =
     (case map_lookup annotations (AnnotationSecretTemplate K) of
        Some val \<Rightarrow> (val, None)
      | None \<Rightarrow> (fallback, None))"

section \<open>String generator\<close>

text \<open>
  \<^verbatim>\<open>strings.Split(s, ",")\<close>: the source calls it with a one-byte separator only, so the
  separator is a character here. The result is never empty; splitting the empty string
  gives the list that holds the empty string.
\<close>

fun Split :: "string \<Rightarrow> char \<Rightarrow> string list" where
  "Split [] sep = [[]]"
| "Split (c # cs) sep =
     (if c = sep then [] # Split cs sep
      else (case Split cs sep of x # xs \<Rightarrow> (c # x) # xs | [] \<Rightarrow> [[c]]))"

text \<open>
  \<^verbatim>\<open>bytes.ReplaceAll(s, old, new)\<close> for a non-empty \<open>old\<close>: every non-overlapping
  occurrence of \<open>old\<close>, found from the left, is replaced by \<open>new\<close>. The source calls it
  with the constant pattern \<^verbatim>\<open>${SECRET}\<close> only; Go's treatment of an empty pattern
  (an insertion between the UTF-8 sequences of \<open>s\<close>) is not modelled.
\<close>

fun ReplaceAll :: "byte list \<Rightarrow> byte list \<Rightarrow> byte list \<Rightarrow> byte list" where
  "ReplaceAll [] old new = []"
| "ReplaceAll (c # cs) old new =
     (if old \<noteq> [] \<and> take (length old) (c # cs) = old
      then new @ ReplaceAll (drop (length old - 1) cs) old new
      else c # ReplaceAll cs old new)"

definition templateKey :: string where
  "templateKey = ''${SECRET}''"

text \<open>
  \<^verbatim>\<open>ensureUniqueness\<close>: the loop over the elements, with the set of the elements seen so
  far (the \<^verbatim>\<open>map[string]bool\<close> of the source).
\<close>

fun ensureUniqueness_loop :: "string set \<Rightarrow> string list \<Rightarrow> error option" where
  "ensureUniqueness_loop seen [] = None"
| "ensureUniqueness_loop seen (e # es) =
     (if e \<in> seen then Some (DuplicateElement e)
      else ensureUniqueness_loop (insert e seen) es)"

definition ensureUniqueness :: "string list \<Rightarrow> error option" where
  "ensureUniqueness a = ensureUniqueness_loop {} a"

fun contains :: "string list \<Rightarrow> string \<Rightarrow> bool" where
  "contains [] e = False"
| "contains (a # s) e = (if a = e then True else contains s e)"

text \<open>
  \<^verbatim>\<open>generateRandomSecret\<close> writes into the \<^verbatim>\<open>Data\<close> map of the instance it is given: the
  model returns the error, the instance after the call and the count of entropy reads.
\<close>

definition generateRandomSecret ::
  "config \<Rightarrow> secret \<Rightarrow> string \<Rightarrow> int \<Rightarrow> bool \<Rightarrow> nat \<Rightarrow> (error option \<times> secret \<times> nat) outcome" where
  "generateRandomSecret C instance key len isByteLength reads =
     (case getEncodingFromAnnotation (keys C) (DefaultEncoding C) (Annotations instance) of
        (encoding, Some err) \<Rightarrow> Return (Some err, instance, reads)
      | (encoding, None) \<Rightarrow>
          (case GenerateRandomString C len encoding isByteLength reads of
             Panic msg \<Rightarrow> Panic msg
           | Return (val, Some err, reads') \<Rightarrow> Return (Some err, instance, reads')
           | Return (val, None, reads') \<Rightarrow>
               (case getTemplateFromAnnotation (keys C) templateKey (Annotations instance) of
                  (template, Some err) \<Rightarrow> Return (Some err, instance, reads')
                | (template, None) \<Rightarrow>
                    (case map_assign (Data instance) key
                            (ReplaceAll (bytes_of_string template) (bytes_of_string templateKey) val) of
                       Panic msg \<Rightarrow> Panic msg
                     | Return d \<Rightarrow> Return (None, instance\<lparr>Data := d\<rparr>, reads')))))"

text \<open>
  The \<^verbatim>\<open>for _, key := range genKeys\<close> loop of \<^verbatim>\<open>regenerateKeysWhereRequired\<close>. Its state
  is the instance, the count of entropy reads and \<^verbatim>\<open>generatedCount\<close>; the loop ends
  early, with the error, when a generation fails.
\<close>

fun generate_loop ::
  "config \<Rightarrow> string list \<Rightarrow> int \<Rightarrow> bool \<Rightarrow> string list \<Rightarrow> secret \<Rightarrow> nat \<Rightarrow> int
     \<Rightarrow> (error option \<times> secret \<times> nat \<times> int) outcome" where
  "generate_loop C regenKeys len isByteLength [] instance reads generatedCount =
     Return (None, instance, reads, generatedCount)"
| "generate_loop C regenKeys len isByteLength (key # rest) instance reads generatedCount =
     (if length (map_index_bytes (Data instance) key) \<noteq> 0 \<and> \<not> contains regenKeys key
      then generate_loop C regenKeys len isByteLength rest instance reads generatedCount
      else
        (case generateRandomSecret C instance key len isByteLength reads of
           Panic msg \<Rightarrow> Panic msg
         | Return (Some err, instance', reads') \<Rightarrow>
             Return (Some err, instance', reads', generatedCount + 1)
         | Return (None, instance', reads') \<Rightarrow>
             generate_loop C regenKeys len isByteLength rest instance' reads' (generatedCount + 1)))"

text \<open>
  The first part of \<^verbatim>\<open>regenerateKeysWhereRequired\<close>: the regeneration set, and the
  instance after the regenerate annotation has been consumed.
\<close>

definition regenKeys_of :: "config \<Rightarrow> secret \<Rightarrow> string list \<Rightarrow> secret \<times> string list" where
  "regenKeys_of C instance genKeys =
     (if map_lookup (Annotations instance) (AnnotationSecretSecure (keys C)) = None
         \<and> RegenerateInsecure C
      then (instance, genKeys)
      else
        (case map_lookup (Annotations instance) (AnnotationSecretRegenerate (keys C)) of
           Some regenerate \<Rightarrow>
             (instance\<lparr>Annotations :=
                 map_delete (Annotations instance) (AnnotationSecretRegenerate (keys C))\<rparr>,
              if regenerate = ''yes'' then genKeys else Split regenerate CHR '','')
         | None \<Rightarrow> (instance, [])))"

definition regenerateKeysWhereRequired ::
  "config \<Rightarrow> secret \<Rightarrow> string list \<Rightarrow> nat \<Rightarrow> (result \<times> error option \<times> secret \<times> nat) outcome" where
  "regenerateKeysWhereRequired C instance0 genKeys reads =
     (case regenKeys_of C instance0 genKeys of
        (instance, regenKeys) \<Rightarrow>
          (case GetLengthFromAnnotation (keys C) (DefaultLength C) (Annotations instance) of
             (len, Some err) \<Rightarrow> Return (Result_zero, Some err, instance, reads)
           | (len, None) \<Rightarrow>
               (case ParseByteLength C (DefaultLength C) len of
                  Inl msg \<Rightarrow> Return (Result_zero, Some (LengthError msg), instance, reads)
                | Inr (parsedLength, isByteLength) \<Rightarrow>
                    (case generate_loop C regenKeys parsedLength isByteLength genKeys instance reads 0 of
                       Panic msg \<Rightarrow> Panic msg
                     | Return (Some err, instance', reads', generatedCount) \<Rightarrow>
                         Return (\<lparr>Requeue = False, RequeueAfter = Second * 30\<rparr>, Some err,
                                 instance', reads')
                     | Return (None, instance', reads', generatedCount) \<Rightarrow>
                         if generatedCount = int (length genKeys)
                         then
                           (case map_assign (Annotations instance')
                                   (AnnotationSecretSecure (keys C)) ''yes'' of
                              Panic msg \<Rightarrow> Panic msg
                            | Return a \<Rightarrow>
                                Return (Result_zero, None, instance'\<lparr>Annotations := a\<rparr>, reads'))
                         else Return (Result_zero, None, instance', reads')))))"

text \<open>
  \<^verbatim>\<open>StringGenerator.generateData\<close>. The result holds the retry directive, the error, the
  instance as the call leaves it in memory and the count of entropy reads.
\<close>

definition generateData ::
  "config \<Rightarrow> secret \<Rightarrow> nat \<Rightarrow> (result \<times> error option \<times> secret \<times> nat) outcome" where
  "generateData C instance reads =
     (let toGenerate = map_index_string (Annotations instance) (AnnotationSecretAutoGenerate (keys C));
          genKeys = Split toGenerate CHR '',''
      in case ensureUniqueness genKeys of
           Some err \<Rightarrow> Return (Result_zero, Some err, instance, reads)
         | None \<Rightarrow> regenerateKeysWhereRequired C instance genKeys reads)"

section \<open>Reconciliation controller\<close>

text \<open>
  Modelled from the spec: the declaration of \<^verbatim>\<open>Type\<close> and of its constants is not in
  the source file of the controller. The secret type is one of String, SSHKeypair and
  BasicAuth, and the String type is written \<^verbatim>\<open>string\<close>.
\<close>

definition TypeString :: string where
  "TypeString = ''string''"

definition TypeSSHKeypair :: string where
  "TypeSSHKeypair = ''ssh-keypair''"

definition TypeBasicAuth :: string where
  "TypeBasicAuth = ''basic-auth''"

text \<open>
  Modelled from the spec: the method \<^verbatim>\<open>Type.Validate\<close> is not in the source file of the
  controller. A type is valid when it is one of the three variants; every other value, the unset
  (empty) one too, is invalid.
\<close>

definition Validate :: "string \<Rightarrow> error option" where
  "Validate st =
     (if st = TypeString \<or> st = TypeSSHKeypair \<or> st = TypeBasicAuth then None
      else Some (InvalidType st))"

text \<open>
  The collaborators of one reconciliation pass: what \<^verbatim>\<open>client.Get\<close> answers for the
  request, what \<^verbatim>\<open>client.Update\<close> answers for a resource, the formatted current time, and
  the \<^verbatim>\<open>generateData\<close> methods of the two generators that are declared elsewhere in
  the package.
\<close>

datatype get_result = NotFound | GetError error | Found secret

type_synonym generator = "secret \<Rightarrow> nat \<Rightarrow> (result \<times> error option \<times> secret \<times> nat) outcome"

record client =
  Get :: get_result
  Update :: "secret \<Rightarrow> error option"
  Now :: string
  SSHKeypairGenerator :: generator
  BasicAuthGenerator :: generator

text \<open>
  The last part of \<^verbatim>\<open>Reconcile\<close>: the comparison of the fetched instance with the desired
  one and the update. A result of the controller holds the retry directive, the error,
  the desired copy as the pass leaves it (none when no instance was fetched) and the list
  of the resources handed to \<^verbatim>\<open>client.Update\<close>.

  \<^verbatim>\<open>reflect.DeepEqual\<close> on two maps is equality of the maps, a nil map being different
  from an empty one. Byte slices are compared by their contents: the model does not tell
  a nil slice from an empty one, which matters only where an empty value replaces an
  empty value.
\<close>

type_synonym reconcile_result = "result \<times> error option \<times> secret option \<times> secret list"

definition persist :: "config \<Rightarrow> client \<Rightarrow> secret \<Rightarrow> secret \<Rightarrow> reconcile_result outcome" where
  "persist C cl instance desired =
     (if Annotations instance \<noteq> Annotations desired \<or> Data instance \<noteq> Data desired
      then
        (case map_assign (Annotations desired) (AnnotationSecretAutoGeneratedAt (keys C)) (Now cl) of
           Panic msg \<Rightarrow> Panic msg
         | Return a \<Rightarrow>
             (case Update cl (desired\<lparr>Annotations := a\<rparr>) of
                Some err \<Rightarrow>
                  Return (\<lparr>Requeue = True, RequeueAfter = 0\<rparr>, Some err,
                          Some (desired\<lparr>Annotations := a\<rparr>), [desired\<lparr>Annotations := a\<rparr>])
              | None \<Rightarrow>
                  Return (Result_zero, None,
                          Some (desired\<lparr>Annotations := a\<rparr>), [desired\<lparr>Annotations := a\<rparr>])))
      else Return (Result_zero, None, Some desired, []))"

text \<open>
  \<^verbatim>\<open>Reconcile\<close> from the point where the type is resolved: the allocation of a nil
  \<^verbatim>\<open>Data\<close> map, the choice of the generator, the generation and the update.
\<close>

definition generate_and_persist ::
  "config \<Rightarrow> client \<Rightarrow> secret \<Rightarrow> secret \<Rightarrow> string \<Rightarrow> nat \<Rightarrow> reconcile_result outcome" where
  "generate_and_persist C cl instance desired0 sType reads =
     (let desired = (if Data desired0 = None then desired0\<lparr>Data := Some Map.empty\<rparr> else desired0)
      in if sType \<noteq> TypeSSHKeypair \<and> sType \<noteq> TypeString \<and> sType \<noteq> TypeBasicAuth
         then Return (\<lparr>Requeue = True, RequeueAfter = 0\<rparr>, Some SecretTypeNotSpecified,
                      Some desired, [])
         else
           (case (if sType = TypeSSHKeypair then SSHKeypairGenerator cl desired reads
                  else if sType = TypeString then generateData C desired reads
                  else BasicAuthGenerator cl desired reads) of
              Panic msg \<Rightarrow> Panic msg
            | Return (res, Some err, desired', reads') \<Rightarrow> Return (res, Some err, Some desired', [])
            | Return (res, None, desired', reads') \<Rightarrow> persist C cl instance desired'))"

definition Reconcile :: "config \<Rightarrow> client \<Rightarrow> nat \<Rightarrow> reconcile_result outcome" where
  "Reconcile C cl reads =
     (case Get cl of
        NotFound \<Rightarrow> Return (Result_zero, None, None, [])
      | GetError err \<Rightarrow> Return (Result_zero, Some err, None, [])
      | Found instance \<Rightarrow>
          (let sType = map_index_string (Annotations instance) (AnnotationSecretType (keys C))
           in case Validate sType of
                Some err \<Rightarrow>
                  if map_lookup (Annotations instance) (AnnotationSecretAutoGenerate (keys C)) = None
                     \<and> sType = []
                  then Return (Result_zero, None, Some instance, [])
                  else
                    (case map_assign (Annotations instance) (AnnotationSecretType (keys C)) TypeString of
                       Panic msg \<Rightarrow> Panic msg
                     | Return a \<Rightarrow>
                         generate_and_persist C cl instance (instance\<lparr>Annotations := a\<rparr>)
                           TypeString reads)
              | None \<Rightarrow> generate_and_persist C cl instance instance sType reads))"

section \<open>Notions used in the statements\<close>

text \<open>The declared field names of an instance, as \<^verbatim>\<open>generateData\<close> computes them.\<close>

definition genKeys_of :: "config \<Rightarrow> secret \<Rightarrow> string list" where
  "genKeys_of C instance =
     Split (map_index_string (Annotations instance) (AnnotationSecretAutoGenerate (keys C))) CHR '',''"

text \<open>
  The regeneration set of a pass, and the instance after the pass has consumed the
  regenerate annotation.
\<close>

definition regeneration_set :: "config \<Rightarrow> secret \<Rightarrow> string list" where
  "regeneration_set C instance = snd (regenKeys_of C instance (genKeys_of C instance))"

definition consumed :: "config \<Rightarrow> secret \<Rightarrow> secret" where
  "consumed C instance = fst (regenKeys_of C instance (genKeys_of C instance))"

text \<open>
  The condition under which the loop of \<^verbatim>\<open>regenerateKeysWhereRequired\<close> leaves a field
  alone: it has a non-empty value and is not in the regeneration set.
\<close>

definition retained :: "string list \<Rightarrow> secret \<Rightarrow> string \<Rightarrow> bool" where
  "retained regenKeys instance key \<longleftrightarrow>
     length (map_index_bytes (Data instance) key) \<noteq> 0 \<and> \<not> contains regenKeys key"

text \<open>
  The value that \<^verbatim>\<open>generateRandomSecret\<close> stores when its call of \<^verbatim>\<open>rand.Read\<close> is the
  \<open>i\<close>-th one: the random string of \<^verbatim>\<open>GenerateRandomString\<close> in the encoding the
  annotations select, put into the template.
\<close>

definition generated_value :: "config \<Rightarrow> string gomap \<Rightarrow> int \<Rightarrow> bool \<Rightarrow> nat \<Rightarrow> byte list option" where
  "generated_value C annotations len isByteLength i =
     (case GenerateRandomString C len
             (fst (getEncodingFromAnnotation (keys C) (DefaultEncoding C) annotations))
             isByteLength i of
        Return (val, None, reads') \<Rightarrow>
          Some (ReplaceAll
                  (bytes_of_string (fst (getTemplateFromAnnotation (keys C) templateKey annotations)))
                  (bytes_of_string templateKey) val)
      | _ \<Rightarrow> None)"

text \<open>
  The length and the byte-length flag that one pass uses for every field.
\<close>

definition pass_length :: "config \<Rightarrow> secret \<Rightarrow> string + int \<times> bool" where
  "pass_length C instance =
     ParseByteLength C (DefaultLength C)
       (fst (GetLengthFromAnnotation (keys C) (DefaultLength C) (Annotations instance)))"

section \<open>Example inputs\<close>

definition example_keys :: annotation_keys where
  "example_keys =
     \<lparr>AnnotationSecretType = ''type'',
      AnnotationSecretAutoGenerate = ''autogenerate'',
      AnnotationSecretAutoGeneratedAt = ''autogenerate-generated-at'',
      AnnotationSecretRegenerate = ''regenerate'',
      AnnotationSecretSecure = ''secure'',
      AnnotationSecretLength = ''length'',
      AnnotationSecretEncoding = ''encoding'',
      AnnotationSecretTemplate = ''template''\<rparr>"

text \<open>
  A length parser for the examples: decimal digits, with an optional suffix \<^verbatim>\<open>b\<close> that
  marks a byte length; the empty string stands for the fallback.
\<close>

fun parse_digits :: "nat \<Rightarrow> string \<Rightarrow> nat option" where
  "parse_digits acc [] = Some acc"
| "parse_digits acc (c # cs) =
     (if 48 \<le> (of_char c :: nat) \<and> (of_char c :: nat) \<le> 57
      then parse_digits (10 * acc + (of_char c - 48)) cs
      else None)"

definition example_ParseByteLength :: "int \<Rightarrow> string \<Rightarrow> string + int \<times> bool" where
  "example_ParseByteLength fallback s =
     (if s = [] then Inr (fallback, False)
      else if last s = CHR ''b'' then
        (case parse_digits 0 (butlast s) of
           Some n \<Rightarrow> if butlast s = [] then Inl ''invalid syntax'' else Inr (int n, True)
         | None \<Rightarrow> Inl ''invalid syntax'')
      else
        (case parse_digits 0 s of
           Some n \<Rightarrow> Inr (int n, False)
         | None \<Rightarrow> Inl ''invalid syntax''))"

text \<open>
  A configuration whose entropy source always answers, one whose entropy source never
  answers, and one whose entropy source fails from the second read on.
\<close>

definition example_config :: config where
  "example_config =
     \<lparr>keys = example_keys, RegenerateInsecure = False, DefaultLength = 8,
      DefaultEncoding = ''base64'', ParseByteLength = example_ParseByteLength,
      entropy = (\<lambda>i. Inr (\<lambda>j. of_nat (17 * i + j)))\<rparr>"

definition failing_config :: config where
  "failing_config = example_config\<lparr>entropy := (\<lambda>i. Inl ''entropy source unavailable'')\<rparr>"

definition flaky_config :: config where
  "flaky_config =
     example_config\<lparr>entropy :=
       (\<lambda>i. if i = 0 then Inr (\<lambda>j. of_nat j) else Inl ''entropy source unavailable'')\<rparr>"

definition example_client :: "secret \<Rightarrow> client" where
  "example_client instance =
     \<lparr>Get = Found instance, Update = (\<lambda>s. None), Now = ''2021-01-01T00:00:00Z'',
      SSHKeypairGenerator = (\<lambda>s reads. Return (Result_zero, None, s, reads)),
      BasicAuthGenerator = (\<lambda>s reads. Return (Result_zero, None, s, reads))\<rparr>"

definition xy_secret :: secret where
  "xy_secret =
     \<lparr>Annotations = Some [''autogenerate'' \<mapsto> ''x,y''],
      Data = Some [''x'' \<mapsto> bytes_of_string ''v'']\<rparr>"

definition xy_after :: secret where
  "xy_after =
     \<lparr>Annotations = Some [''autogenerate'' \<mapsto> ''x,y''],
      Data = Some [''x'' \<mapsto> bytes_of_string ''v'', ''y'' \<mapsto> bytes_of_string ''AAECAwQF'']\<rparr>"

definition dup_secret :: secret where
  "dup_secret = \<lparr>Annotations = Some [''autogenerate'' \<mapsto> ''a,a''], Data = None\<rparr>"

definition regen_secret :: secret where
  "regen_secret =
     \<lparr>Annotations = Some [''autogenerate'' \<mapsto> ''x'', ''regenerate'' \<mapsto> ''yes''],
      Data = Some [''x'' \<mapsto> bytes_of_string ''old'']\<rparr>"

definition regen_after :: secret where
  "regen_after =
     \<lparr>Annotations = Some ([''autogenerate'' \<mapsto> ''x'', ''regenerate'' \<mapsto> ''yes'']
                           (''regenerate'' := None, ''secure'' \<mapsto> ''yes'')),
      Data = Some [''x'' \<mapsto> bytes_of_string ''AAECAwQF'']\<rparr>"

definition blank_secret :: secret where
  "blank_secret = \<lparr>Annotations = Some Map.empty, Data = Some Map.empty\<rparr>"

definition blank_after :: secret where
  "blank_after =
     \<lparr>Annotations = Some [''secure'' \<mapsto> ''yes''],
      Data = Some [[] \<mapsto> bytes_of_string ''AAECAwQF'']\<rparr>"

definition unnamed_secret :: secret where
  "unnamed_secret = \<lparr>Annotations = Some Map.empty, Data = Some [[] \<mapsto> bytes_of_string ''v'']\<rparr>"

definition settled_secret :: secret where
  "settled_secret =
     \<lparr>Annotations = Some [''type'' \<mapsto> ''string'', ''autogenerate'' \<mapsto> ''x''],
      Data = Some [''x'' \<mapsto> bytes_of_string ''v'']\<rparr>"

definition plain_secret :: secret where
  "plain_secret =
     \<lparr>Annotations = Some [''app'' \<mapsto> ''db''],
      Data = Some [''password'' \<mapsto> bytes_of_string ''hunter2'']\<rparr>"

definition bogus_secret :: secret where
  "bogus_secret = \<lparr>Annotations = Some [''type'' \<mapsto> ''bogus''], Data = None\<rparr>"

definition bogus_after :: secret where
  "bogus_after =
     \<lparr>Annotations = Some [''type'' \<mapsto> ''string'', ''secure'' \<mapsto> ''yes'',
                          ''autogenerate-generated-at'' \<mapsto> ''2021-01-01T00:00:00Z''],
      Data = Some [[] \<mapsto> bytes_of_string ''AAECAwQF'']\<rparr>"

definition typeless_secret :: secret where
  "typeless_secret =
     \<lparr>Annotations = Some [''autogenerate'' \<mapsto> ''x''],
      Data = Some [''x'' \<mapsto> bytes_of_string ''v'']\<rparr>"

definition typeless_after :: secret where
  "typeless_after =
     \<lparr>Annotations = Some [''autogenerate'' \<mapsto> ''x'', ''type'' \<mapsto> ''string'',
                          ''autogenerate-generated-at'' \<mapsto> ''2021-01-01T00:00:00Z''],
      Data = Some [''x'' \<mapsto> bytes_of_string ''v'']\<rparr>"

definition dup_desired :: secret where
  "dup_desired =
     \<lparr>Annotations = Some [''autogenerate'' \<mapsto> ''a,a'', ''type'' \<mapsto> ''string''],
      Data = Some Map.empty\<rparr>"

definition pair_secret :: secret where
  "pair_secret =
     \<lparr>Annotations = Some [''autogenerate'' \<mapsto> ''x,y''], Data = Some Map.empty\<rparr>"

definition pair_partial :: secret where
  "pair_partial =
     \<lparr>Annotations = Some [''autogenerate'' \<mapsto> ''x,y''],
      Data = Some [''x'' \<mapsto> bytes_of_string ''AAECAwQF'']\<rparr>"

section \<open>Properties of the encoder\<close>

lemma div_step: "0 < k \<Longrightarrow> ((n::nat) + k) div k = Suc (n div k)"
  using div_add_self2 [of k n] by simp

lemma le_mult_div_up:
  fixes n k :: nat
  assumes "0 < k"
  shows "n \<le> k * ((n + (k - 1)) div k)"
proof -
  have "(n + (k - 1)) mod k \<le> k - 1"
    using assms mod_less_divisor [of k "n + (k - 1)"] by linarith
  moreover have "k * ((n + (k - 1)) div k) + (n + (k - 1)) mod k = n + (k - 1)"
    by simp
  ultimately show ?thesis by linarith
qed

lemma length_quintets: "length (quintets al a b c d e) = 8"
  by (simp add: quintets_def Let_def)

lemma length_base32_EncodeToString:
  "length (base32_EncodeToString al b) = 8 * ((length b + 4) div 5)"
proof (induction al b rule: base32_EncodeToString.induct)
  case (1 al a b c d e rest)
  have "(length rest + 4 + 5) div 5 = Suc ((length rest + 4) div 5)"
    by (rule div_step) simp
  then have "(length (a # b # c # d # e # rest) + 4) div 5 = Suc ((length rest + 4) div 5)"
    by (simp add: add.commute)
  with 1 show ?case by (simp add: length_quintets)
qed (simp_all add: length_quintets)

lemma length_base64_EncodeToString:
  "length (base64_EncodeToString al b) = 4 * ((length b + 2) div 3)"
proof (induction al b rule: base64_EncodeToString.induct)
  case (1 al a b c rest)
  have "(length rest + 2 + 3) div 3 = Suc ((length rest + 2) div 3)"
    by (rule div_step) simp
  then have "(length (a # b # c # rest) + 2) div 3 = Suc ((length rest + 2) div 3)"
    by (simp add: add.commute)
  with 1 show ?case by (simp add: Let_def)
qed (simp_all add: Let_def)

lemma length_hex_EncodeToString: "length (hex_EncodeToString b) = 2 * length b"
  by (induction b) simp_all

lemma length_encodedString_ge: "length b \<le> length (encodedString encoding b)"
  using le_mult_div_up [of 3 "length b"] le_mult_div_up [of 5 "length b"]
  unfolding encodedString_def
  by (simp add: length_base64_EncodeToString length_base32_EncodeToString
        length_hex_EncodeToString)

lemma length_rand_Read: "rand_Read C i n = Inr b \<Longrightarrow> length b = n"
  by (auto simp: rand_Read_def split: sum.splits)

lemma length_bytes_of_string: "length (bytes_of_string s) = length s"
  by (simp add: bytes_of_string_def)

lemma GenerateRandomString_error:
  assumes "rand_Read C reads (nat len) = Inl err" and "0 \<le> len"
  shows "GenerateRandomString C len encoding lenBytes reads = Return ([], Some err, Suc reads)"
  using assms by (simp add: GenerateRandomString_def)

lemma GenerateRandomString_trimmed:
  assumes "rand_Read C reads (nat len) = Inr b" and "0 \<le> len" and "encoding \<noteq> ''raw''"
  shows "GenerateRandomString C len encoding False reads =
           Return (bytes_of_string (take (nat len) (encodedString encoding b)), None, Suc reads)"
proof -
  have "length b = nat len"
    using assms(1) by (rule length_rand_Read)
  then have "nat len \<le> length (encodedString encoding b)"
    using length_encodedString_ge [of b encoding] by simp
  then show ?thesis
    using assms by (auto simp: GenerateRandomString_def)
qed

lemma GenerateRandomString_raw_bytes:
  assumes "rand_Read C reads (nat len) = Inr b" and "0 \<le> len"
  shows "GenerateRandomString C len ''raw'' lenBytes reads = Return (b, None, Suc reads)"
  using assms by (simp add: GenerateRandomString_def)

lemma rand_Read_example:
  "rand_Read example_config i n = Inr (map (\<lambda>j. of_nat (17 * i + j)) [0..<n])"
  by (simp add: rand_Read_def example_config_def)

text \<open>
  C2: for every length \<open>n \<ge> 0\<close> and every encoding among base64, base64url, base32 and
  hex (the empty, unset encoding stands for base64), \<^verbatim>\<open>GenerateRandomString\<close> called
  without the byte-length flag returns, and when it returns without error its result has
  exactly \<open>n\<close> characters: the first \<open>n\<close> characters of the encoding of the \<open>n\<close> random
  bytes.
\<close>

theorem GenerateRandomString_exact_length:
  assumes "0 \<le> n"
    and "encoding \<in> {''base64'', ''base64url'', ''base32'', ''hex'', []}"
  shows "\<exists>v err reads'.
           GenerateRandomString C n encoding False reads = Return (v, err, reads') \<and>
           (err = None \<longrightarrow>
              length v = nat n \<and>
              (\<exists>b. rand_Read C reads (nat n) = Inr b \<and>
                   v = bytes_of_string (take (nat n) (encodedString encoding b))))"
proof (cases "rand_Read C reads (nat n)")
  case (Inl err)
  then show ?thesis
    using assms(1) by (simp add: GenerateRandomString_error)
next
  case (Inr b)
  have raw: "encoding \<noteq> ''raw''"
    using assms(2) by auto
  have len: "length b = nat n"
    using Inr by (rule length_rand_Read)
  have "nat n \<le> length (encodedString encoding b)"
    using length_encodedString_ge [of b encoding] len by simp
  then have "length (bytes_of_string (take (nat n) (encodedString encoding b))) = nat n"
    by (simp add: length_bytes_of_string)
  then show ?thesis
    using GenerateRandomString_trimmed [OF Inr assms(1) raw] Inr by simp
qed

theorem GenerateRandomString_exact_length_witness:
  "(0::int) \<le> 5 \<and> ''hex'' \<in> {''base64'', ''base64url'', ''base32'', ''hex'', []} \<and>
   (\<exists>v. GenerateRandomString example_config 5 ''hex'' False 0 = Return (v, None, 1) \<and>
        length v = 5)"
  using GenerateRandomString_exact_length [of 5 "''hex''" example_config 0]
    GenerateRandomString_trimmed [OF rand_Read_example, of 5 "''hex''" 0]
  by auto

text \<open>
  C8: for every length \<open>n \<ge> 0\<close>, \<^verbatim>\<open>GenerateRandomString\<close> called with the encoding
  \<^verbatim>\<open>raw\<close> returns, and when it returns without error its result is the \<open>n\<close> bytes read
  from the entropy source, neither encoded nor cut, whatever the byte-length flag.
\<close>

theorem GenerateRandomString_raw:
  assumes "0 \<le> n"
  shows "\<exists>v err reads'.
           GenerateRandomString C n ''raw'' lenBytes reads = Return (v, err, reads') \<and>
           (err = None \<longrightarrow> rand_Read C reads (nat n) = Inr v \<and> length v = nat n)"
proof (cases "rand_Read C reads (nat n)")
  case (Inl err)
  then show ?thesis
    using assms by (simp add: GenerateRandomString_error)
next
  case (Inr b)
  then show ?thesis
    using assms GenerateRandomString_raw_bytes [OF Inr assms] length_rand_Read [OF Inr] by simp
qed

theorem GenerateRandomString_raw_witness:
  "(0::int) \<le> 3 \<and>
   GenerateRandomString example_config 3 ''raw'' True 1 = Return ([17, 18, 19], None, 2) \<and>
   GenerateRandomString example_config 3 ''raw'' False 1 = Return ([17, 18, 19], None, 2)"
  using GenerateRandomString_raw [of 3 example_config True 1]
    GenerateRandomString_raw [of 3 example_config False 1]
  by (simp add: GenerateRandomString_def rand_Read_example upt_rec)

section \<open>Properties of the String generator\<close>

lemma ensureUniqueness_loop_None:
  "ensureUniqueness_loop seen a = None \<longleftrightarrow> distinct a \<and> set a \<inter> seen = {}"
  by (induction a arbitrary: seen) auto

lemma ensureUniqueness_None: "ensureUniqueness a = None \<longleftrightarrow> distinct a"
  by (simp add: ensureUniqueness_def ensureUniqueness_loop_None)

lemma contains_set: "contains s e \<longleftrightarrow> e \<in> set s"
  by (induction s) auto

lemma Split_not_Nil: "Split s sep \<noteq> []"
  by (induction s) (auto split: list.splits)

lemma map_lookup_assign:
  "map_assign m k v = Return m' \<Longrightarrow>
     map_lookup m' k' = (if k' = k then Some v else map_lookup m k')"
  by (auto simp: map_assign_def map_lookup_def split: option.splits)

lemma map_lookup_delete:
  "map_lookup (map_delete m k) k' = (if k' = k then None else map_lookup m k')"
  by (auto simp: map_delete_def map_lookup_def split: option.splits)

lemma map_lookup_differs: "map_lookup m k \<noteq> map_lookup m' k \<Longrightarrow> m \<noteq> m'"
  by auto

lemma GenerateRandomString_reads:
  "GenerateRandomString C len encoding lenBytes reads = Return (v, err, reads') \<Longrightarrow> reads' = Suc reads"
  by (auto simp: GenerateRandomString_def split: if_splits sum.splits)


lemma generateRandomSecret_Return_error:
  assumes "generateRandomSecret C inst key len isb reads = Return (Some err, inst', reads')"
  shows "inst' = inst \<and> reads' = Suc reads \<and> (\<exists>msg. err = EntropyError msg \<and> entropy C reads = Inl msg)"
  using assms
  by (auto simp: generateRandomSecret_def getEncodingFromAnnotation_def
      getTemplateFromAnnotation_def GenerateRandomString_def rand_Read_def
      split: option.splits outcome.splits prod.splits sum.splits if_splits)

lemma generateRandomSecret_Return_ok:
  assumes "generateRandomSecret C inst key len isb reads = Return (None, inst', reads')"
  shows "reads' = Suc reads \<and> Annotations inst' = Annotations inst \<and>
         (\<exists>v. generated_value C (Annotations inst) len isb reads = Some v \<and>
              map_assign (Data inst) key v = Return (Data inst'))"
  using assms
  by (auto simp: generateRandomSecret_def generated_value_def getEncodingFromAnnotation_def
      getTemplateFromAnnotation_def
      split: option.splits outcome.splits prod.splits dest: GenerateRandomString_reads)


lemma retained_cong:
  "map_lookup (Data inst') key = map_lookup (Data inst) key \<Longrightarrow>
     retained regenKeys inst' key = retained regenKeys inst key"
  by (simp add: retained_def map_index_bytes_def)

lemma generate_loop_Cons_cases:
  assumes "generate_loop C regenKeys len isb (key # rest) inst reads cnt =
             Return (err, inst', reads', cnt')"
  obtains
    (skip) "retained regenKeys inst key"
      "generate_loop C regenKeys len isb rest inst reads cnt =
         Return (err, inst', reads', cnt')"
  | (fail) msg where "\<not> retained regenKeys inst key"
      "generateRandomSecret C inst key len isb reads =
         Return (Some (EntropyError msg), inst, Suc reads)"
      "err = Some (EntropyError msg)" "entropy C reads = Inl msg"
      "inst' = inst" "reads' = Suc reads" "cnt' = cnt + 1"
  | (gen) inst1 v where "\<not> retained regenKeys inst key"
      "generateRandomSecret C inst key len isb reads = Return (None, inst1, Suc reads)"
      "Annotations inst1 = Annotations inst"
      "generated_value C (Annotations inst) len isb reads = Some v"
      "map_assign (Data inst) key v = Return (Data inst1)"
      "generate_loop C regenKeys len isb rest inst1 (Suc reads) (cnt + 1) =
         Return (err, inst', reads', cnt')"
proof (cases "retained regenKeys inst key")
  case True
  with assms show ?thesis
    by (intro skip) (simp_all add: retained_def)
next
  case False
  show ?thesis
  proof (cases "generateRandomSecret C inst key len isb reads")
    case (Panic msg)
    with assms False show ?thesis by (auto simp: retained_def)
  next
    case (Return out)
    obtain e inst1 reads1 where out: "out = (e, inst1, reads1)"
      by (cases out) auto
    show ?thesis
    proof (cases e)
      case None
      have call: "generateRandomSecret C inst key len isb reads = Return (None, inst1, reads1)"
        using Return out None by simp
      from generateRandomSecret_Return_ok [OF call]
      obtain v where r1: "reads1 = Suc reads"
        and a1: "Annotations inst1 = Annotations inst"
        and v: "generated_value C (Annotations inst) len isb reads = Some v"
        and d1: "map_assign (Data inst) key v = Return (Data inst1)"
        by blast
      have "generate_loop C regenKeys len isb rest inst1 (Suc reads) (cnt + 1) =
              Return (err, inst', reads', cnt')"
        using assms False call r1 by (auto simp: retained_def)
      with False call r1 a1 v d1 show ?thesis
        by (intro gen [of inst1 v]) simp_all
    next
      case (Some e')
      have call: "generateRandomSecret C inst key len isb reads = Return (Some e', inst1, reads1)"
        using Return out Some by simp
      from generateRandomSecret_Return_error [OF call]
      obtain msg where "inst1 = inst" "reads1 = Suc reads" "e' = EntropyError msg"
        "entropy C reads = Inl msg"
        by blast
      moreover have "err = Some e' \<and> inst' = inst1 \<and> reads' = reads1 \<and> cnt' = cnt + 1"
        using assms False call by (auto simp: retained_def)
      ultimately show ?thesis
        using False call by (intro fail [of msg]) simp_all
    qed
  qed
qed

lemma generate_loop_annotations:
  "generate_loop C regenKeys len isb ks inst reads cnt = Return (err, inst', reads', cnt')
     \<Longrightarrow> Annotations inst' = Annotations inst"
proof (induction ks arbitrary: inst reads cnt)
  case Nil
  then show ?case by simp
next
  case (Cons key rest)
  from Cons.prems show ?case
  proof (cases rule: generate_loop_Cons_cases)
    case skip
    then show ?thesis using Cons.IH by blast
  next
    case (fail msg)
    then show ?thesis by simp
  next
    case (gen inst1 v)
    then show ?thesis using Cons.IH [OF gen(6)] by simp
  qed
qed

lemma generate_loop_reads:
  "generate_loop C regenKeys len isb ks inst reads cnt = Return (err, inst', reads', cnt')
     \<Longrightarrow> reads \<le> reads'"
proof (induction ks arbitrary: inst reads cnt)
  case Nil
  then show ?case by simp
next
  case (Cons key rest)
  from Cons.prems show ?case
  proof (cases rule: generate_loop_Cons_cases)
    case skip
    then show ?thesis using Cons.IH by blast
  next
    case (fail msg)
    then show ?thesis by simp
  next
    case (gen inst1 v)
    then show ?thesis using Cons.IH [OF gen(6)] by simp
  qed
qed

lemma generate_loop_frame:
  "generate_loop C regenKeys len isb ks inst reads cnt = Return (err, inst', reads', cnt')
     \<Longrightarrow> retained regenKeys inst k \<or> k \<notin> set ks
     \<Longrightarrow> map_lookup (Data inst') k = map_lookup (Data inst) k"
proof (induction ks arbitrary: inst reads cnt)
  case Nil
  then show ?case by simp
next
  case (Cons key rest)
  from Cons.prems(1) show ?case
  proof (cases rule: generate_loop_Cons_cases)
    case skip
    have "retained regenKeys inst k \<or> k \<notin> set rest"
      using Cons.prems(2) by auto
    then show ?thesis using Cons.IH [OF skip(2)] by blast
  next
    case (fail msg)
    then show ?thesis by simp
  next
    case (gen inst1 v)
    have neq: "k \<noteq> key"
      using Cons.prems(2) gen(1) by auto
    have same: "map_lookup (Data inst1) k = map_lookup (Data inst) k"
      using map_lookup_assign [OF gen(5), of k] neq by simp
    have "retained regenKeys inst1 k \<or> k \<notin> set rest"
      using Cons.prems(2) retained_cong [OF same] by auto
    then show ?thesis using Cons.IH [OF gen(6)] same by simp
  qed
qed

lemma generate_loop_generated:
  "generate_loop C regenKeys len isb ks inst reads cnt = Return (None, inst', reads', cnt')
     \<Longrightarrow> k \<in> set ks \<Longrightarrow> \<not> retained regenKeys inst k
     \<Longrightarrow> \<exists>i v. reads \<le> i \<and> i < reads' \<and>
               generated_value C (Annotations inst) len isb i = Some v \<and>
               map_lookup (Data inst') k = Some v"
proof (induction ks arbitrary: inst reads cnt)
  case Nil
  then show ?case by simp
next
  case (Cons key rest)
  from Cons.prems(1) show ?case
  proof (cases rule: generate_loop_Cons_cases)
    case skip
    have "k \<in> set rest"
      using Cons.prems(2,3) skip(1) by auto
    then show ?thesis using Cons.IH [OF skip(2)] Cons.prems(3) by blast
  next
    case (fail msg)
    then show ?thesis by simp
  next
    case (gen inst1 v)
    have le: "Suc reads \<le> reads'"
      using generate_loop_reads [OF gen(6)] .
    show ?thesis
    proof (cases "k \<in> set rest \<and> \<not> retained regenKeys inst1 k")
      case True
      then obtain i w where "Suc reads \<le> i" "i < reads'"
        "generated_value C (Annotations inst1) len isb i = Some w"
        "map_lookup (Data inst') k = Some w"
        using Cons.IH [OF gen(6)] by blast
      then show ?thesis using gen(3) by (intro exI [of _ i] exI [of _ w]) simp
    next
      case False
      have keep: "map_lookup (Data inst') k = map_lookup (Data inst1) k"
        using generate_loop_frame [OF gen(6)] False by blast
      have "k = key"
      proof (rule ccontr)
        assume neq: "k \<noteq> key"
        then have "map_lookup (Data inst1) k = map_lookup (Data inst) k"
          using map_lookup_assign [OF gen(5), of k] by simp
        then have "\<not> retained regenKeys inst1 k"
          using retained_cong Cons.prems(3) by blast
        with False neq Cons.prems(2) show False by auto
      qed
      then have "map_lookup (Data inst') k = Some v"
        using keep map_lookup_assign [OF gen(5), of k] by simp
      then show ?thesis using gen(4) le by (intro exI [of _ reads] exI [of _ v]) simp
    qed
  qed
qed

lemma generate_loop_count_all:
  "generate_loop C regenKeys len isb ks inst reads cnt = Return (None, inst', reads', cnt')
     \<Longrightarrow> \<forall>k\<in>set ks. contains regenKeys k
     \<Longrightarrow> cnt' = cnt + int (length ks)"
proof (induction ks arbitrary: inst reads cnt)
  case Nil
  then show ?case by simp
next
  case (Cons key rest)
  from Cons.prems(1) show ?case
  proof (cases rule: generate_loop_Cons_cases)
    case skip
    then show ?thesis using Cons.prems(2) by (simp add: retained_def)
  next
    case (fail msg)
    then show ?thesis by simp
  next
    case (gen inst1 v)
    then show ?thesis using Cons.IH [OF gen(6)] Cons.prems(2) by simp
  qed
qed

lemma generate_loop_nothing:
  "\<forall>k\<in>set ks. retained regenKeys inst k
     \<Longrightarrow> generate_loop C regenKeys len isb ks inst reads cnt = Return (None, inst, reads, cnt)"
  by (induction ks) (simp_all add: retained_def)

lemma generate_loop_error:
  "generate_loop C regenKeys len isb ks inst reads cnt = Return (Some e, inst', reads', cnt')
     \<Longrightarrow> \<exists>msg. e = EntropyError msg"
proof (induction ks arbitrary: inst reads cnt)
  case Nil
  then show ?case by simp
next
  case (Cons key rest)
  from Cons.prems show ?case
  proof (cases rule: generate_loop_Cons_cases)
    case skip
    then show ?thesis using Cons.IH by blast
  next
    case (fail msg)
    then show ?thesis by simp
  next
    case (gen inst1 v)
    then show ?thesis using Cons.IH [OF gen(6)] by simp
  qed
qed

lemma generate_loop_append:
  "generate_loop C regenKeys len isb (pre @ post) inst reads cnt =
     (case generate_loop C regenKeys len isb pre inst reads cnt of
        Return (None, inst1, reads1, cnt1) \<Rightarrow>
          generate_loop C regenKeys len isb post inst1 reads1 cnt1
      | other \<Rightarrow> other)"
  by (induction pre arbitrary: inst reads cnt)
     (auto split: outcome.splits option.splits prod.splits)

lemma ensureUniqueness_loop_Some:
  "ensureUniqueness_loop seen a = Some err \<Longrightarrow> \<exists>e. err = DuplicateElement e \<and> e \<in> set a"
  by (induction a arbitrary: seen) (auto split: if_splits)

lemma ensureUniqueness_Some:
  "\<not> distinct a \<Longrightarrow> \<exists>e. ensureUniqueness a = Some (DuplicateElement e) \<and> e \<in> set a"
proof -
  assume "\<not> distinct a"
  then obtain err where "ensureUniqueness a = Some err"
    using ensureUniqueness_None [of a] by (cases "ensureUniqueness a") auto
  then show ?thesis
    using ensureUniqueness_loop_Some [of "{}" a err] by (auto simp: ensureUniqueness_def)
qed

lemma generateData_duplicate:
  assumes "\<not> distinct (genKeys_of C s)"
  shows "\<exists>e. generateData C s r = Return (Result_zero, Some (DuplicateElement e), s, r)
             \<and> e \<in> set (genKeys_of C s)"
proof -
  obtain e where "ensureUniqueness (genKeys_of C s) = Some (DuplicateElement e)"
    "e \<in> set (genKeys_of C s)"
    using ensureUniqueness_Some [OF assms] by blast
  then show ?thesis
    by (auto simp: generateData_def genKeys_of_def Let_def)
qed

lemma generateData_distinct:
  assumes "distinct (genKeys_of C s)"
  shows "generateData C s r = regenerateKeysWhereRequired C s (genKeys_of C s) r"
  using assms ensureUniqueness_None [of "genKeys_of C s"]
  by (simp add: generateData_def genKeys_of_def Let_def)

lemma regenKeys_of_eq:
  "regenKeys_of C s (genKeys_of C s) = (consumed C s, regeneration_set C s)"
  by (simp add: consumed_def regeneration_set_def)

lemma regenerateKeysWhereRequired_unfold:
  "regenerateKeysWhereRequired C s (genKeys_of C s) r =
     (case pass_length C (consumed C s) of
        Inl msg \<Rightarrow> Return (Result_zero, Some (LengthError msg), consumed C s, r)
      | Inr (len, isb) \<Rightarrow>
          (case generate_loop C (regeneration_set C s) len isb (genKeys_of C s) (consumed C s) r 0 of
             Panic msg \<Rightarrow> Panic msg
           | Return (Some err, s', r', cnt) \<Rightarrow>
               Return (\<lparr>Requeue = False, RequeueAfter = Second * 30\<rparr>, Some err, s', r')
           | Return (None, s', r', cnt) \<Rightarrow>
               if cnt = int (length (genKeys_of C s))
               then
                 (case map_assign (Annotations s') (AnnotationSecretSecure (keys C)) ''yes'' of
                    Panic msg \<Rightarrow> Panic msg
                  | Return a \<Rightarrow> Return (Result_zero, None, s'\<lparr>Annotations := a\<rparr>, r'))
               else Return (Result_zero, None, s', r')))"
  by (simp add: regenerateKeysWhereRequired_def regenKeys_of_eq pass_length_def
      GetLengthFromAnnotation_def split: option.splits)

text \<open>The instance after the regenerate annotation has been consumed.\<close>

lemma Data_consumed: "Data (consumed C s) = Data s"
  by (simp add: consumed_def regenKeys_of_def split: option.splits)

lemma Annotations_consumed:
  "map_lookup (Annotations (consumed C s)) k =
     (if k = AnnotationSecretRegenerate (keys C)
         \<and> \<not> (map_lookup (Annotations s) (AnnotationSecretSecure (keys C)) = None
                \<and> RegenerateInsecure C)
      then None else map_lookup (Annotations s) k)"
  by (auto simp: consumed_def regenKeys_of_def map_lookup_delete split: option.splits)

lemma Annotations_consumed_nil:
  "Annotations (consumed C s) = None \<longleftrightarrow> Annotations s = None"
  by (auto simp: consumed_def regenKeys_of_def map_delete_def map_lookup_def split: option.splits)

lemma retained_consumed: "retained regenKeys (consumed C s) k = retained regenKeys s k"
  by (simp add: retained_def Data_consumed)

lemma distinct_keysD:
  assumes "distinct_keys K"
  shows "AnnotationSecretLength K \<noteq> AnnotationSecretRegenerate K"
    and "AnnotationSecretEncoding K \<noteq> AnnotationSecretRegenerate K"
    and "AnnotationSecretTemplate K \<noteq> AnnotationSecretRegenerate K"
    and "AnnotationSecretSecure K \<noteq> AnnotationSecretRegenerate K"
    and "AnnotationSecretType K \<noteq> AnnotationSecretRegenerate K"
    and "AnnotationSecretType K \<noteq> AnnotationSecretSecure K"
    and "AnnotationSecretAutoGenerate K \<noteq> AnnotationSecretType K"
    and "AnnotationSecretAutoGeneratedAt K \<noteq> AnnotationSecretType K"
    and "AnnotationSecretAutoGenerate K \<noteq> AnnotationSecretRegenerate K"
    and "AnnotationSecretAutoGenerate K \<noteq> AnnotationSecretSecure K"
  using assms by (auto simp: distinct_keys_def)

lemma pass_length_consumed:
  assumes "distinct_keys (keys C)"
  shows "pass_length C (consumed C s) = pass_length C s"
  using distinct_keysD(1) [OF assms]
  by (simp add: pass_length_def GetLengthFromAnnotation_def Annotations_consumed)

lemma generated_value_cong:
  assumes "map_lookup a (AnnotationSecretEncoding (keys C)) = map_lookup a' (AnnotationSecretEncoding (keys C))"
    and "map_lookup a (AnnotationSecretTemplate (keys C)) = map_lookup a' (AnnotationSecretTemplate (keys C))"
  shows "generated_value C a len isb i = generated_value C a' len isb i"
proof -
  have e: "getEncodingFromAnnotation (keys C) d a = getEncodingFromAnnotation (keys C) d a'" for d
    using assms(1) by (simp add: getEncodingFromAnnotation_def)
  have t: "getTemplateFromAnnotation (keys C) d a = getTemplateFromAnnotation (keys C) d a'" for d
    using assms(2) by (simp add: getTemplateFromAnnotation_def)
  show ?thesis
    by (simp only: generated_value_def e t)
qed

lemma generated_value_consumed:
  assumes "distinct_keys (keys C)"
  shows "generated_value C (Annotations (consumed C s)) len isb i =
         generated_value C (Annotations s) len isb i"
  using distinct_keysD(2,3) [OF assms]
  by (intro generated_value_cong) (simp_all add: Annotations_consumed)

lemma generateData_Return_cases:
  assumes "distinct (genKeys_of C s)"
    and "generateData C s r = Return (res, err, s', r')"
  obtains
    (length_error) msg where "pass_length C (consumed C s) = Inl msg"
      "res = Result_zero" "err = Some (LengthError msg)" "s' = consumed C s" "r' = r"
  | (failed) len isb e cnt where "pass_length C (consumed C s) = Inr (len, isb)"
      "generate_loop C (regeneration_set C s) len isb (genKeys_of C s) (consumed C s) r 0 =
         Return (Some e, s', r', cnt)"
      "res = \<lparr>Requeue = False, RequeueAfter = Second * 30\<rparr>" "err = Some e"
  | (ok) len isb sZ cnt where "pass_length C (consumed C s) = Inr (len, isb)"
      "generate_loop C (regeneration_set C s) len isb (genKeys_of C s) (consumed C s) r 0 =
         Return (None, sZ, r', cnt)"
      "res = Result_zero" "err = None" "Data s' = Data sZ"
      "cnt = int (length (genKeys_of C s)) \<Longrightarrow>
         map_assign (Annotations sZ) (AnnotationSecretSecure (keys C)) ''yes'' =
           Return (Annotations s')"
      "cnt \<noteq> int (length (genKeys_of C s)) \<Longrightarrow> s' = sZ"
proof (cases "pass_length C (consumed C s)")
  case (Inl msg)
  have "regenerateKeysWhereRequired C s (genKeys_of C s) r = Return (res, err, s', r')"
    using assms by (simp add: generateData_distinct)
  then have "res = Result_zero \<and> err = Some (LengthError msg) \<and> s' = consumed C s \<and> r' = r"
    using Inl by (simp add: regenerateKeysWhereRequired_unfold)
  then show ?thesis
    using length_error [of msg] Inl by blast
next
  case (Inr p)
  obtain len isb where p: "p = (len, isb)"
    by (cases p) auto
  have run: "(case generate_loop C (regeneration_set C s) len isb (genKeys_of C s) (consumed C s) r 0 of
             Panic msg \<Rightarrow> Panic msg
           | Return (Some err, s', r', cnt) \<Rightarrow>
               Return (\<lparr>Requeue = False, RequeueAfter = Second * 30\<rparr>, Some err, s', r')
           | Return (None, s', r', cnt) \<Rightarrow>
               if cnt = int (length (genKeys_of C s))
               then
                 (case map_assign (Annotations s') (AnnotationSecretSecure (keys C)) ''yes'' of
                    Panic msg \<Rightarrow> Panic msg
                  | Return a \<Rightarrow> Return (Result_zero, None, s'\<lparr>Annotations := a\<rparr>, r'))
               else Return (Result_zero, None, s', r')) = Return (res, err, s', r')"
    using assms Inr p by (simp add: generateData_distinct regenerateKeysWhereRequired_unfold)
  show ?thesis
  proof (cases "generate_loop C (regeneration_set C s) len isb (genKeys_of C s) (consumed C s) r 0")
    case (Panic msg)
    with run show ?thesis by simp
  next
    case (Return out)
    obtain e sZ rZ cnt where out: "out = (e, sZ, rZ, cnt)"
      by (cases out) auto
    show ?thesis
    proof (cases e)
      case (Some e')
      have "res = \<lparr>Requeue = False, RequeueAfter = Second * 30\<rparr> \<and> err = Some e' \<and> s' = sZ \<and> r' = rZ"
        using run Return out Some by simp
      then show ?thesis
        using failed [of len isb e' cnt] Return out Some Inr p by blast
    next
      case None
      show ?thesis
      proof (cases "cnt = int (length (genKeys_of C s))")
        case True
        have "res = Result_zero \<and> err = None \<and> r' = rZ \<and> Data s' = Data sZ \<and>
              map_assign (Annotations sZ) (AnnotationSecretSecure (keys C)) ''yes'' =
                Return (Annotations s')"
          using run Return out None True by (auto split: outcome.splits)
        then show ?thesis
          using ok [of len isb sZ cnt] Return out None Inr p True by blast
      next
        case False
        have "res = Result_zero \<and> err = None \<and> r' = rZ \<and> s' = sZ"
          using run Return out None False by simp
        then show ?thesis
          using ok [of len isb sZ cnt] Return out None Inr p False by blast
      qed
    qed
  qed
qed

lemma generateData_data_frame:
  assumes "generateData C s r = Return (res, err, s', r')"
    and "retained (regeneration_set C s) s k \<or> k \<notin> set (genKeys_of C s)"
  shows "map_lookup (Data s') k = map_lookup (Data s) k"
proof (cases "distinct (genKeys_of C s)")
  case False
  then show ?thesis
    using generateData_duplicate [OF False, of r] assms(1) by auto
next
  case True
  have pre: "retained (regeneration_set C s) (consumed C s) k \<or> k \<notin> set (genKeys_of C s)"
    using assms(2) by (simp add: retained_consumed)
  from True assms(1) show ?thesis
  proof (cases rule: generateData_Return_cases)
    case (length_error msg)
    then show ?thesis by (simp add: Data_consumed)
  next
    case (failed len isb e cnt)
    show ?thesis
      using generate_loop_frame [OF failed(2) pre] by (simp add: Data_consumed)
  next
    case (ok len isb sZ cnt)
    show ?thesis
      using generate_loop_frame [OF ok(2) pre] ok(5) by (simp add: Data_consumed)
  qed
qed

lemma generateData_generated:
  assumes "distinct_keys (keys C)"
    and "generateData C s r = Return (res, None, s', r')"
    and "k \<in> set (genKeys_of C s)"
    and "\<not> retained (regeneration_set C s) s k"
  shows "\<exists>len isb i v. pass_length C s = Inr (len, isb) \<and> r \<le> i \<and> i < r' \<and>
           generated_value C (Annotations s) len isb i = Some v \<and>
           map_lookup (Data s') k = Some v"
proof -
  have dist: "distinct (genKeys_of C s)"
    using generateData_duplicate [of C s r] assms(2) by auto
  have nr: "\<not> retained (regeneration_set C s) (consumed C s) k"
    using assms(4) by (simp add: retained_consumed)
  from dist assms(2) show ?thesis
  proof (cases rule: generateData_Return_cases)
    case (ok len isb sZ cnt)
    obtain i v where "r \<le> i" "i < r'"
      "generated_value C (Annotations (consumed C s)) len isb i = Some v"
      "map_lookup (Data sZ) k = Some v"
      using generate_loop_generated [OF ok(2) assms(3) nr] by blast
    then show ?thesis
      using ok(1,5) assms(1)
      by (intro exI [of _ len] exI [of _ isb] exI [of _ i] exI [of _ v])
         (simp add: pass_length_consumed generated_value_consumed)
  qed simp_all
qed

section \<open>Evaluation on the example inputs\<close>

lemma Itoa_8: "Itoa 8 = ''8''"
  by (simp add: Itoa_def decimal.simps)

lemma example_config_simps:
  "keys example_config = example_keys"
  "RegenerateInsecure example_config = False"
  "DefaultLength example_config = 8"
  "DefaultEncoding example_config = ''base64''"
  "ParseByteLength example_config = example_ParseByteLength"
  "keys failing_config = example_keys"
  "RegenerateInsecure failing_config = False"
  "DefaultLength failing_config = 8"
  "DefaultEncoding failing_config = ''base64''"
  "ParseByteLength failing_config = example_ParseByteLength"
  "entropy failing_config i = Inl ''entropy source unavailable''"
  by (simp_all add: example_config_def failing_config_def)

lemma example_keys_simps:
  "AnnotationSecretType example_keys = ''type''"
  "AnnotationSecretAutoGenerate example_keys = ''autogenerate''"
  "AnnotationSecretAutoGeneratedAt example_keys = ''autogenerate-generated-at''"
  "AnnotationSecretRegenerate example_keys = ''regenerate''"
  "AnnotationSecretSecure example_keys = ''secure''"
  "AnnotationSecretLength example_keys = ''length''"
  "AnnotationSecretEncoding example_keys = ''encoding''"
  "AnnotationSecretTemplate example_keys = ''template''"
  by (simp_all add: example_keys_def)

lemma distinct_example_keys: "distinct_keys example_keys"
  by (simp add: distinct_keys_def example_keys_def)

lemma example_ParseByteLength_8: "example_ParseByteLength 8 ''8'' = Inr (8, False)"
  by (simp add: example_ParseByteLength_def)

lemma example_read_0: "rand_Read example_config 0 (nat 8) = Inr [0, 1, 2, 3, 4, 5, 6, 7]"
  by (simp add: rand_Read_example upt_rec)

lemma example_base64_0:
  "encodedString ''base64'' [0, 1, 2, 3, 4, 5, 6, 7 :: byte] = ''AAECAwQFBgc=''"
  by (simp add: encodedString_def encodeStd_def sextet_def)

lemma GenerateRandomString_example_0:
  "GenerateRandomString example_config 8 ''base64'' False 0 =
     Return (bytes_of_string ''AAECAwQF'', None, 1)"
  using GenerateRandomString_trimmed [OF example_read_0, of "''base64''"]
  by (simp add: example_base64_0)

lemma bytes_of_templateKey:
  "bytes_of_string templateKey = [36, 123, 83, 69, 67, 82, 69, 84, 125]"
  by (simp add: bytes_of_string_def templateKey_def)

lemma ReplaceAll_example:
  "ReplaceAll (bytes_of_string templateKey) (bytes_of_string templateKey) v = v"
  by (simp add: bytes_of_templateKey)

lemma GenerateRandomString_failing:
  "GenerateRandomString failing_config 8 encoding lenBytes reads =
     Return ([], Some (EntropyError ''entropy source unavailable''), Suc reads)"
  by (simp add: GenerateRandomString_def rand_Read_def example_config_simps)

lemmas generateData_eval =
  generateData_def regenerateKeysWhereRequired_def regenKeys_of_def
  generateRandomSecret_def GetLengthFromAnnotation_def getEncodingFromAnnotation_def
  getTemplateFromAnnotation_def map_lookup_def map_index_string_def map_index_bytes_def
  map_assign_def map_delete_def ensureUniqueness_def example_config_simps
  example_keys_simps Itoa_8 example_ParseByteLength_8 GenerateRandomString_example_0
  GenerateRandomString_failing ReplaceAll_example length_bytes_of_string
  genKeys_of_def regeneration_set_def retained_def pass_length_def Result_zero_def

lemma generateData_xy:
  "generateData example_config xy_secret 0 = Return (Result_zero, None, xy_after, 1)"
  by (simp add: generateData_eval xy_secret_def xy_after_def)

lemma generated_value_example_0:
  "generated_value example_config (Some [''autogenerate'' \<mapsto> g]) 8 False 0 =
     Some (bytes_of_string ''AAECAwQF'')"
  by (simp add: generated_value_def generateData_eval)

section \<open>Retained and generated fields\<close>

text \<open>
  C3 (amended): for every declared field name, if the data map holds a non-empty value
  under that name and the name is not in the regeneration set of the pass, the stored
  value is unchanged by every returning call of \<^verbatim>\<open>generateData\<close>; on a call that returns
  without error, every other declared field holds a newly generated value afterwards.
\<close>

theorem generateData_retains_or_generates:
  assumes "distinct_keys (keys C)"
    and "generateData C s r = Return (res, err, s', r')"
    and "key \<in> set (genKeys_of C s)"
  shows "(retained (regeneration_set C s) s key \<longrightarrow>
            map_lookup (Data s') key = map_lookup (Data s) key) \<and>
         (\<not> retained (regeneration_set C s) s key \<and> err = None \<longrightarrow>
            (\<exists>len isb i v. pass_length C s = Inr (len, isb) \<and> r \<le> i \<and> i < r' \<and>
               generated_value C (Annotations s) len isb i = Some v \<and>
               map_lookup (Data s') key = Some v))"
  using generateData_data_frame [OF assms(2), of key]
    generateData_generated [OF assms(1) _ assms(3), of r res s' r'] assms(2)
  by blast

theorem generateData_retains_or_generates_witness:
  "distinct_keys (keys example_config) \<and>
   generateData example_config xy_secret 0 = Return (Result_zero, None, xy_after, 1) \<and>
   ''x'' \<in> set (genKeys_of example_config xy_secret) \<and>
   ''y'' \<in> set (genKeys_of example_config xy_secret) \<and>
   retained (regeneration_set example_config xy_secret) xy_secret ''x'' \<and>
   \<not> retained (regeneration_set example_config xy_secret) xy_secret ''y'' \<and>
   map_lookup (Data xy_after) ''x'' = map_lookup (Data xy_secret) ''x'' \<and>
   pass_length example_config xy_secret = Inr (8, False) \<and>
   generated_value example_config (Annotations xy_secret) 8 False 0 =
     Some (bytes_of_string ''AAECAwQF'') \<and>
   map_lookup (Data xy_after) ''y'' = Some (bytes_of_string ''AAECAwQF'')"
  using generateData_retains_or_generates
    [of example_config xy_secret 0 Result_zero None xy_after 1 "''x''"]
    generateData_retains_or_generates
    [of example_config xy_secret 0 Result_zero None xy_after 1 "''y''"]
    generateData_xy distinct_example_keys generated_value_example_0 [of "''x,y''"]
  by (simp add: generateData_eval xy_secret_def xy_after_def)

text \<open>
  Without the restriction to calls that return without error the second half fails: with
  the fields \<^verbatim>\<open>x,y\<close>, a value under \<^verbatim>\<open>x\<close> and an entropy source that does not answer,
  the call returns the error and \<^verbatim>\<open>y\<close> holds no value.
\<close>

theorem generateData_other_fields_counterexample:
  "generateData failing_config xy_secret 0 =
     Return (\<lparr>Requeue = False, RequeueAfter = Second * 30\<rparr>,
             Some (EntropyError ''entropy source unavailable''), xy_secret, 1) \<and>
   ''y'' \<in> set (genKeys_of failing_config xy_secret) \<and>
   \<not> retained (regeneration_set failing_config xy_secret) xy_secret ''y'' \<and>
   map_lookup (Data xy_secret) ''y'' = None"
  by (simp add: generateData_eval xy_secret_def)

text \<open>
  C4: for every resource whose autogenerate annotation, split on \<^verbatim>\<open>,\<close>, holds a field
  name twice, \<^verbatim>\<open>generateData\<close> returns an error and the resource as it was: its data map
  and its annotation map are unchanged.
\<close>

theorem generateData_duplicate_fields:
  assumes "\<not> distinct (Split (map_index_string (Annotations s)
                                  (AnnotationSecretAutoGenerate (keys C))) CHR '','')"
  shows "\<exists>e. generateData C s r = Return (Result_zero, Some (DuplicateElement e), s, r)"
  using generateData_duplicate [of C s r] assms by (auto simp: genKeys_of_def)

theorem generateData_duplicate_fields_witness:
  "\<not> distinct (Split (map_index_string (Annotations dup_secret)
                        (AnnotationSecretAutoGenerate (keys example_config))) CHR '','') \<and>
   generateData example_config dup_secret 0 =
     Return (Result_zero, Some (DuplicateElement ''a''), dup_secret, 0)"
  using generateData_duplicate_fields [of dup_secret example_config 0]
  by (simp add: generateData_eval dup_secret_def)

section \<open>Regeneration on request\<close>

lemma contains_regenerate_yes:
  assumes "map_lookup (Annotations s) (AnnotationSecretRegenerate (keys C)) = Some ''yes''"
    and "map_lookup (Annotations s) (AnnotationSecretSecure (keys C)) \<noteq> None \<or> \<not> RegenerateInsecure C"
  shows "regeneration_set C s = genKeys_of C s"
  using assms by (auto simp: regeneration_set_def regenKeys_of_def)

lemma generateData_annotations_distinct:
  assumes "distinct (genKeys_of C s)"
    and "generateData C s r = Return (res, err, s', r')"
    and "k \<noteq> AnnotationSecretSecure (keys C)"
  shows "map_lookup (Annotations s') k = map_lookup (Annotations (consumed C s)) k"
  using assms(1,2)
proof (cases rule: generateData_Return_cases)
  case (length_error msg)
  then show ?thesis by simp
next
  case (failed len isb e cnt)
  then show ?thesis using generate_loop_annotations [OF failed(2)] by simp
next
  case (ok len isb sZ cnt)
  have z: "Annotations sZ = Annotations (consumed C s)"
    using generate_loop_annotations [OF ok(2)] .
  show ?thesis
  proof (cases "cnt = int (length (genKeys_of C s))")
    case True
    show ?thesis
      using map_lookup_assign [OF ok(6) [OF True], of k] assms(3) z by simp
  next
    case False
    show ?thesis
      using ok(7) [OF False] z by simp
  qed
qed

lemma generateData_annotations_other:
  assumes "generateData C s r = Return (res, err, s', r')"
    and "k \<noteq> AnnotationSecretSecure (keys C)"
    and "k \<noteq> AnnotationSecretRegenerate (keys C)"
  shows "map_lookup (Annotations s') k = map_lookup (Annotations s) k"
proof (cases "distinct (genKeys_of C s)")
  case False
  then show ?thesis
    using generateData_duplicate [OF False, of r] assms(1) by auto
next
  case True
  show ?thesis
    using generateData_annotations_distinct [OF True assms(1,2)] assms(3)
    by (simp add: Annotations_consumed)
qed

lemma map_assign_not_nil: "map_assign m k v = Return m' \<Longrightarrow> m' \<noteq> None"
  by (auto simp: map_assign_def split: option.splits)

lemma generateData_annotations_not_nil:
  assumes "generateData C s r = Return (res, err, s', r')"
    and "Annotations s \<noteq> None"
  shows "Annotations s' \<noteq> None"
proof (cases "distinct (genKeys_of C s)")
  case False
  then show ?thesis
    using generateData_duplicate [OF False, of r] assms by auto
next
  case True
  have c: "Annotations (consumed C s) \<noteq> None"
    using assms(2) by (simp add: Annotations_consumed_nil)
  from True assms(1) show ?thesis
  proof (cases rule: generateData_Return_cases)
    case (length_error msg)
    then show ?thesis using c by simp
  next
    case (failed len isb e cnt)
    then show ?thesis using generate_loop_annotations [OF failed(2)] c by simp
  next
    case (ok len isb sZ cnt)
    show ?thesis
    proof (cases "cnt = int (length (genKeys_of C s))")
      case True
      show ?thesis
        using map_assign_not_nil [OF ok(6) [OF True]] .
    next
      case False
      show ?thesis
        using ok(7) [OF False] generate_loop_annotations [OF ok(2)] c by simp
    qed
  qed
qed

lemma generateData_regenerate_consumed:
  assumes "distinct_keys (keys C)"
    and "map_lookup (Annotations s) (AnnotationSecretSecure (keys C)) \<noteq> None \<or> \<not> RegenerateInsecure C"
    and "generateData C s r = Return (res, None, s', r')"
  shows "map_lookup (Annotations s') (AnnotationSecretRegenerate (keys C)) = None"
proof -
  have dist: "distinct (genKeys_of C s)"
    using generateData_duplicate [of C s r] assms(3) by auto
  have "AnnotationSecretRegenerate (keys C) \<noteq> AnnotationSecretSecure (keys C)"
    using distinct_keysD(4) [OF assms(1)] by simp
  then show ?thesis
    using generateData_annotations_distinct [OF dist assms(3)] assms(2)
    by (auto simp: Annotations_consumed)
qed

text \<open>
  C5: for every resource that carries the regenerate annotation with the value \<^verbatim>\<open>yes\<close>,
  and that carries the secure marker or is reconciled with the insecure-regeneration
  policy disabled, a call of \<^verbatim>\<open>generateData\<close> that returns without error leaves a newly
  generated value in every declared field, whatever the field held before, and the
  regenerate annotation is absent afterwards.
\<close>

theorem regenerate_yes_regenerates_all:
  assumes "distinct_keys (keys C)"
    and "map_lookup (Annotations s) (AnnotationSecretRegenerate (keys C)) = Some ''yes''"
    and "map_lookup (Annotations s) (AnnotationSecretSecure (keys C)) \<noteq> None
           \<or> \<not> RegenerateInsecure C"
    and "generateData C s r = Return (res, None, s', r')"
  shows "(\<forall>key \<in> set (genKeys_of C s).
            \<exists>len isb i v. pass_length C s = Inr (len, isb) \<and> r \<le> i \<and> i < r' \<and>
               generated_value C (Annotations s) len isb i = Some v \<and>
               map_lookup (Data s') key = Some v) \<and>
         map_lookup (Annotations s') (AnnotationSecretRegenerate (keys C)) = None"
proof (intro conjI ballI)
  fix key
  assume key: "key \<in> set (genKeys_of C s)"
  have "regeneration_set C s = genKeys_of C s"
    using assms(2,3) by (rule contains_regenerate_yes)
  then have "\<not> retained (regeneration_set C s) s key"
    using key by (simp add: retained_def contains_set)
  then show "\<exists>len isb i v. pass_length C s = Inr (len, isb) \<and> r \<le> i \<and> i < r' \<and>
               generated_value C (Annotations s) len isb i = Some v \<and>
               map_lookup (Data s') key = Some v"
    using generateData_generated [OF assms(1,4) key] by blast
next
  show "map_lookup (Annotations s') (AnnotationSecretRegenerate (keys C)) = None"
    using assms(1,3,4) by (rule generateData_regenerate_consumed)
qed

lemma generateData_regen:
  "generateData example_config regen_secret 0 = Return (Result_zero, None, regen_after, 1)"
  by (simp add: generateData_eval regen_secret_def regen_after_def)

theorem regenerate_yes_regenerates_all_witness:
  "distinct_keys (keys example_config) \<and>
   map_lookup (Annotations regen_secret) (AnnotationSecretRegenerate (keys example_config)) =
     Some ''yes'' \<and>
   \<not> RegenerateInsecure example_config \<and>
   generateData example_config regen_secret 0 = Return (Result_zero, None, regen_after, 1) \<and>
   genKeys_of example_config regen_secret = [''x''] \<and>
   map_lookup (Data regen_secret) ''x'' = Some (bytes_of_string ''old'') \<and>
   map_lookup (Data regen_after) ''x'' = Some (bytes_of_string ''AAECAwQF'') \<and>
   map_lookup (Annotations regen_after) (AnnotationSecretRegenerate (keys example_config)) = None"
  using regenerate_yes_regenerates_all
    [of example_config regen_secret 0 Result_zero regen_after 1]
    generateData_regen distinct_example_keys
  by (simp add: generateData_eval regen_secret_def regen_after_def)

section \<open>An absent or empty autogenerate annotation\<close>

lemma generate_loop_single:
  assumes "generate_loop C regenKeys len isb [key] inst reads cnt = Return (None, inst', reads', cnt')"
    and "\<not> retained regenKeys inst key"
  shows "reads' = Suc reads \<and> cnt' = cnt + 1 \<and>
         (\<exists>v. generated_value C (Annotations inst) len isb reads = Some v \<and>
              map_lookup (Data inst') key = Some v)"
  using assms(1)
proof (cases rule: generate_loop_Cons_cases)
  case skip
  then show ?thesis using assms(2) by simp
next
  case (fail msg)
  then show ?thesis by simp
next
  case (gen inst1 v)
  have "inst' = inst1 \<and> reads' = Suc reads \<and> cnt' = cnt + 1"
    using gen(6) by simp
  then show ?thesis
    using gen(4) map_lookup_assign [OF gen(5), of key] by auto
qed

text \<open>
  C9 (amended): for every resource whose autogenerate annotation is absent or empty, the
  field list is the list that holds the empty string; a call of \<^verbatim>\<open>generateData\<close> that
  returns without error, on a resource whose data map holds no non-empty value under the
  empty name or whose regeneration set names it, writes a newly generated value under the
  empty field name and sets the secure marker.
\<close>

theorem empty_autogenerate_generates:
  assumes "distinct_keys (keys C)"
    and "map_lookup (Annotations s) (AnnotationSecretAutoGenerate (keys C)) = None
           \<or> map_lookup (Annotations s) (AnnotationSecretAutoGenerate (keys C)) = Some []"
    and "generateData C s r = Return (res, None, s', r')"
    and "\<not> retained (regeneration_set C s) s []"
  shows "genKeys_of C s = [[]] \<and>
         (\<exists>len isb v. pass_length C s = Inr (len, isb) \<and>
            generated_value C (Annotations s) len isb r = Some v \<and>
            map_lookup (Data s') [] = Some v) \<and>
         map_lookup (Annotations s') (AnnotationSecretSecure (keys C)) = Some ''yes''"
proof -
  have g: "genKeys_of C s = [[]]"
    using assms(2) by (auto simp: genKeys_of_def map_index_string_def)
  then have dist: "distinct (genKeys_of C s)"
    by simp
  have nr: "\<not> retained (regeneration_set C s) (consumed C s) []"
    using assms(4) by (simp add: retained_consumed)
  from dist assms(3) show ?thesis
  proof (cases rule: generateData_Return_cases)
    case (ok len isb sZ cnt)
    have loop: "generate_loop C (regeneration_set C s) len isb [[]] (consumed C s) r 0 =
                  Return (None, sZ, r', cnt)"
      using ok(2) g by simp
    from generate_loop_single [OF loop nr]
    obtain v where one: "cnt = 1"
      and v: "generated_value C (Annotations (consumed C s)) len isb r = Some v"
      and d: "map_lookup (Data sZ) [] = Some v"
      by auto
    have "cnt = int (length (genKeys_of C s))"
      using one g by simp
    then have "map_lookup (Annotations s') (AnnotationSecretSecure (keys C)) = Some ''yes''"
      using map_lookup_assign [OF ok(6), of "AnnotationSecretSecure (keys C)"] by simp
    moreover have "pass_length C s = Inr (len, isb) \<and>
            generated_value C (Annotations s) len isb r = Some v \<and>
            map_lookup (Data s') [] = Some v"
      using ok(1,5) v d assms(1) by (simp add: pass_length_consumed generated_value_consumed)
    ultimately show ?thesis
      using g by blast
  qed simp_all
qed

lemma generateData_blank:
  "generateData example_config blank_secret 0 = Return (Result_zero, None, blank_after, 1)"
  by (simp add: generateData_eval blank_secret_def blank_after_def)

lemma generated_value_example_blank:
  "generated_value example_config (Some Map.empty) 8 False 0 =
     Some (bytes_of_string ''AAECAwQF'')"
  by (simp add: generated_value_def generateData_eval)

theorem empty_autogenerate_generates_witness:
  "distinct_keys (keys example_config) \<and>
   map_lookup (Annotations blank_secret) (AnnotationSecretAutoGenerate (keys example_config)) = None \<and>
   generateData example_config blank_secret 0 = Return (Result_zero, None, blank_after, 1) \<and>
   \<not> retained (regeneration_set example_config blank_secret) blank_secret [] \<and>
   genKeys_of example_config blank_secret = [[]] \<and>
   pass_length example_config blank_secret = Inr (8, False) \<and>
   generated_value example_config (Annotations blank_secret) 8 False 0 =
     Some (bytes_of_string ''AAECAwQF'') \<and>
   map_lookup (Data blank_after) [] = Some (bytes_of_string ''AAECAwQF'') \<and>
   map_lookup (Annotations blank_after) (AnnotationSecretSecure (keys example_config)) = Some ''yes''"
  using empty_autogenerate_generates [of example_config blank_secret 0 Result_zero blank_after 1]
    generateData_blank distinct_example_keys generated_value_example_blank
  by (simp add: generateData_eval blank_secret_def blank_after_def)

text \<open>
  Without the condition on the empty-named field the statement fails: on a resource with
  no annotation whose data map holds a value under the empty name, the call returns
  without error, writes nothing and does not set the secure marker.
\<close>

theorem empty_autogenerate_counterexample:
  "map_lookup (Annotations unnamed_secret) (AnnotationSecretAutoGenerate (keys example_config)) = None \<and>
   generateData example_config unnamed_secret 0 = Return (Result_zero, None, unnamed_secret, 0) \<and>
   map_lookup (Data unnamed_secret) [] = Some (bytes_of_string ''v'') \<and>
   map_lookup (Annotations unnamed_secret) (AnnotationSecretSecure (keys example_config)) = None"
  by (simp add: generateData_eval unnamed_secret_def)

section \<open>Idempotence\<close>

lemma consumed_unchanged:
  assumes "map_lookup (Annotations s) (AnnotationSecretRegenerate (keys C)) = None"
    and "\<not> (map_lookup (Annotations s) (AnnotationSecretSecure (keys C)) = None \<and> RegenerateInsecure C)"
  shows "consumed C s = s" and "regeneration_set C s = []"
  using assms by (auto simp: consumed_def regeneration_set_def regenKeys_of_def)

lemma genKeys_of_not_Nil: "genKeys_of C s \<noteq> []"
  by (simp add: genKeys_of_def Split_not_Nil)

lemma generateData_nothing_to_do:
  assumes "\<forall>key \<in> set (genKeys_of C s). length (map_index_bytes (Data s) key) \<noteq> 0"
    and "map_lookup (Annotations s) (AnnotationSecretRegenerate (keys C)) = None"
    and "\<not> (map_lookup (Annotations s) (AnnotationSecretSecure (keys C)) = None \<and> RegenerateInsecure C)"
  shows "\<exists>err. generateData C s r = Return (Result_zero, err, s, r)"
proof (cases "distinct (genKeys_of C s)")
  case False
  then show ?thesis
    using generateData_duplicate [OF False, of r] by blast
next
  case True
  have c: "consumed C s = s" and rs: "regeneration_set C s = []"
    using consumed_unchanged [OF assms(2,3)] by simp_all
  have all: "\<forall>k \<in> set (genKeys_of C s). retained [] s k"
    using assms(1) by (simp add: retained_def)
  have loop: "generate_loop C [] len isb (genKeys_of C s) s r 0 = Return (None, s, r, 0)" for len isb
    using generate_loop_nothing [OF all] .
  have cnt: "(0::int) \<noteq> int (length (genKeys_of C s))"
    using genKeys_of_not_Nil [of C s] by simp
  show ?thesis
  proof (cases "pass_length C s")
    case (Inl msg)
    then show ?thesis
      using True by (simp add: generateData_distinct regenerateKeysWhereRequired_unfold c)
  next
    case (Inr p)
    then show ?thesis
      using True cnt
      by (cases p) (simp add: generateData_distinct regenerateKeysWhereRequired_unfold c rs loop)
  qed
qed

lemma persist_unchanged: "persist C cl s s = Return (Result_zero, None, Some s, [])"
  by (simp add: persist_def)

lemma Validate_TypeString: "Validate TypeString = None"
  by (simp add: Validate_def)

lemma TypeString_neq: "TypeString \<noteq> TypeSSHKeypair" "TypeString \<noteq> TypeBasicAuth"
  by (simp_all add: TypeString_def TypeSSHKeypair_def TypeBasicAuth_def)

lemma generate_and_persist_String:
  assumes "Data d \<noteq> None"
  shows "generate_and_persist C cl s d TypeString r =
     (case generateData C d r of
        Panic msg \<Rightarrow> Panic msg
      | Return (res, Some err, d', r') \<Rightarrow> Return (res, Some err, Some d', [])
      | Return (res, None, d', r') \<Rightarrow> persist C cl s d')"
  using assms TypeString_neq by (cases "Data d") (simp_all add: generate_and_persist_def)

text \<open>
  C6: on a resource all of whose declared fields hold non-empty values, that carries no
  regenerate annotation and is not forced to regenerate by the insecure-regeneration
  policy, \<^verbatim>\<open>generateData\<close> returns and changes nothing, so two calls in succession leave the
  data map and the annotation map after the second call as they were after the first;
  and a reconciliation pass that fetches such a resource, with the String type set,
  skips the update.
\<close>

theorem generateData_idempotent:
  assumes "\<forall>key \<in> set (genKeys_of C s). length (map_index_bytes (Data s) key) \<noteq> 0"
    and "map_lookup (Annotations s) (AnnotationSecretRegenerate (keys C)) = None"
    and "\<not> (map_lookup (Annotations s) (AnnotationSecretSecure (keys C)) = None
            \<and> RegenerateInsecure C)"
  shows "(\<exists>res1 err1 s1 r1 res2 err2 s2 r2.
            generateData C s r = Return (res1, err1, s1, r1) \<and>
            generateData C s1 r1 = Return (res2, err2, s2, r2) \<and>
            Annotations s2 = Annotations s1 \<and> Data s2 = Data s1 \<and>
            Annotations s1 = Annotations s \<and> Data s1 = Data s) \<and>
         (Get cl = Found s \<and>
          map_index_string (Annotations s) (AnnotationSecretType (keys C)) = TypeString \<longrightarrow>
            (\<exists>res err. Reconcile C cl r = Return (res, err, Some s, [])))"
proof (intro conjI impI)
  obtain err where run: "generateData C s r = Return (Result_zero, err, s, r)"
    using generateData_nothing_to_do [OF assms] by blast
  then show "\<exists>res1 err1 s1 r1 res2 err2 s2 r2.
            generateData C s r = Return (res1, err1, s1, r1) \<and>
            generateData C s1 r1 = Return (res2, err2, s2, r2) \<and>
            Annotations s2 = Annotations s1 \<and> Data s2 = Data s1 \<and>
            Annotations s1 = Annotations s \<and> Data s1 = Data s"
    by blast
next
  assume fetched: "Get cl = Found s \<and>
    map_index_string (Annotations s) (AnnotationSecretType (keys C)) = TypeString"
  obtain err where run: "generateData C s r = Return (Result_zero, err, s, r)"
    using generateData_nothing_to_do [OF assms] by blast
  obtain key where "key \<in> set (genKeys_of C s)"
    using genKeys_of_not_Nil [of C s] by (cases "genKeys_of C s") auto
  then have "length (map_index_bytes (Data s) key) \<noteq> 0"
    using assms(1) by blast
  then have data: "Data s \<noteq> None"
    by (auto simp: map_index_bytes_def map_lookup_def split: option.splits)
  have "Reconcile C cl r = generate_and_persist C cl s s TypeString r"
    using fetched by (simp add: Reconcile_def Validate_TypeString)
  then have "Reconcile C cl r =
      (case err of Some e \<Rightarrow> Return (Result_zero, Some e, Some s, [])
       | None \<Rightarrow> Return (Result_zero, None, Some s, []))"
    using run by (simp add: generate_and_persist_String [OF data] persist_unchanged split: option.splits)
  then show "\<exists>res err. Reconcile C cl r = Return (res, err, Some s, [])"
    by (cases err) auto
qed

lemma generateData_settled:
  "generateData example_config settled_secret 0 = Return (Result_zero, None, settled_secret, 0)"
  by (simp add: generateData_eval settled_secret_def)

theorem generateData_idempotent_witness:
  "genKeys_of example_config settled_secret = [''x''] \<and>
   length (map_index_bytes (Data settled_secret) ''x'') \<noteq> 0 \<and>
   map_lookup (Annotations settled_secret) (AnnotationSecretRegenerate (keys example_config)) = None \<and>
   \<not> RegenerateInsecure example_config \<and>
   generateData example_config settled_secret 0 = Return (Result_zero, None, settled_secret, 0) \<and>
   Get (example_client settled_secret) = Found settled_secret \<and>
   map_index_string (Annotations settled_secret) (AnnotationSecretType (keys example_config)) =
     TypeString \<and>
   (\<exists>res err. Reconcile example_config (example_client settled_secret) 0 =
      Return (res, err, Some settled_secret, []))"
  using generateData_idempotent
      [where C = example_config and s = settled_secret and r = 0
         and cl = "example_client settled_secret"]
    generateData_settled
  by (simp add: generateData_eval settled_secret_def example_client_def TypeString_def)

section \<open>The reconciliation pass\<close>

lemma Validate_empty: "Validate [] = Some (InvalidType [])"
  by (simp add: Validate_def TypeString_def TypeSSHKeypair_def TypeBasicAuth_def)

text \<open>
  C1 (amended): for every resource whose type annotation is absent or empty and whose
  annotations hold no autogenerate key, the reconciliation pass is a no-op: it returns
  the zero-value directive and no error, its desired copy is the fetched instance (neither
  the data map nor the annotation map is changed), and it hands nothing to
  \<^verbatim>\<open>client.Update\<close>.
\<close>

theorem Reconcile_unmanaged:
  assumes "Get cl = Found s"
    and "map_index_string (Annotations s) (AnnotationSecretType (keys C)) = []"
    and "map_lookup (Annotations s) (AnnotationSecretAutoGenerate (keys C)) = None"
  shows "Reconcile C cl r = Return (Result_zero, None, Some s, [])"
  using assms by (simp add: Reconcile_def Validate_empty)

theorem Reconcile_unmanaged_witness:
  "Get (example_client plain_secret) = Found plain_secret \<and>
   map_index_string (Annotations plain_secret) (AnnotationSecretType (keys example_config)) = [] \<and>
   map_lookup (Annotations plain_secret) (AnnotationSecretAutoGenerate (keys example_config)) = None \<and>
   Reconcile example_config (example_client plain_secret) 0 =
     Return (Result_zero, None, Some plain_secret, [])"
  using Reconcile_unmanaged [of "example_client plain_secret" plain_secret example_config 0]
  by (simp add: example_client_def plain_secret_def map_index_string_def map_lookup_def
      example_config_simps example_keys_simps)

text \<open>What the pass does when the type annotation is invalid and the resource is not skipped.\<close>

lemma persist_changed:
  assumes "map_lookup (Annotations s) k \<noteq> map_lookup (Annotations d) k"
    and "Annotations d = Some m"
  shows "persist C cl s d =
     Return ((case Update cl (d\<lparr>Annotations := Some (m(AnnotationSecretAutoGeneratedAt (keys C) \<mapsto> Now cl))\<rparr>) of
                Some err \<Rightarrow> \<lparr>Requeue = True, RequeueAfter = 0\<rparr>
              | None \<Rightarrow> Result_zero),
             Update cl (d\<lparr>Annotations := Some (m(AnnotationSecretAutoGeneratedAt (keys C) \<mapsto> Now cl))\<rparr>),
             Some (d\<lparr>Annotations := Some (m(AnnotationSecretAutoGeneratedAt (keys C) \<mapsto> Now cl))\<rparr>),
             [d\<lparr>Annotations := Some (m(AnnotationSecretAutoGeneratedAt (keys C) \<mapsto> Now cl))\<rparr>])"
proof -
  have "Annotations s \<noteq> Annotations d"
    using assms(1) by auto
  then show ?thesis
    using assms(2) by (simp add: persist_def map_assign_def split: option.splits)
qed

lemma Reconcile_defaulted:
  assumes "Get cl = Found s"
    and "Validate (map_index_string (Annotations s) (AnnotationSecretType (keys C))) \<noteq> None"
    and "Annotations s = Some m"
    and "m (AnnotationSecretAutoGenerate (keys C)) \<noteq> None
           \<or> map_index_string (Annotations s) (AnnotationSecretType (keys C)) \<noteq> []"
  shows "Reconcile C cl r =
     (case generateData C
             (s\<lparr>Annotations := Some (m(AnnotationSecretType (keys C) \<mapsto> TypeString)),
                Data := (if Data s = None then Some Map.empty else Data s)\<rparr>) r of
        Panic msg \<Rightarrow> Panic msg
      | Return (res, Some err, d', r') \<Rightarrow> Return (res, Some err, Some d', [])
      | Return (res, None, d', r') \<Rightarrow> persist C cl s d')"
proof -
  let ?typed = "s\<lparr>Annotations := Some (m(AnnotationSecretType (keys C) \<mapsto> TypeString))\<rparr>"
  let ?alloc = "s\<lparr>Annotations := Some (m(AnnotationSecretType (keys C) \<mapsto> TypeString)),
                Data := (if Data s = None then Some Map.empty else Data s)\<rparr>"
  have "Reconcile C cl r = generate_and_persist C cl s ?typed TypeString r"
    using assms by (auto simp: Reconcile_def map_assign_def map_lookup_def split: option.splits)
  moreover have "generate_and_persist C cl s ?typed TypeString r = generate_and_persist C cl s ?alloc TypeString r"
    by (simp add: generate_and_persist_def)
  moreover have "Data ?alloc \<noteq> None"
    by simp
  ultimately show ?thesis
    using generate_and_persist_String [of ?alloc C cl s r] by simp
qed

lemma Validate_TypeString_iff: "Validate t \<noteq> None \<Longrightarrow> t \<noteq> TypeString"
  by (auto simp: Validate_def)

text \<open>
  C10 (amended): whenever the type annotation is absent or invalid and the autogenerate
  annotation is present, the reconciliation pass writes the value \<^verbatim>\<open>string\<close> into the type
  annotation of its desired copy; when \<^verbatim>\<open>generateData\<close> then returns without error, this
  annotation alone makes the desired copy differ from the fetched instance, so the pass
  stamps the generated-at annotation and hands the resource to \<^verbatim>\<open>client.Update\<close>, whether
  or not a data field was generated.
\<close>

theorem Reconcile_defaults_type_and_persists:
  assumes "distinct_keys (keys C)"
    and "Get cl = Found s"
    and "Annotations s = Some m"
    and "m (AnnotationSecretAutoGenerate (keys C)) \<noteq> None"
    and "Validate (map_index_string (Annotations s) (AnnotationSecretType (keys C))) \<noteq> None"
    and "generateData C
           (s\<lparr>Annotations := Some (m(AnnotationSecretType (keys C) \<mapsto> TypeString)),
              Data := (if Data s = None then Some Map.empty else Data s)\<rparr>) r =
         Return (res, None, d, r')"
  shows "\<exists>u. Reconcile C cl r =
               Return ((case Update cl u of Some err \<Rightarrow> \<lparr>Requeue = True, RequeueAfter = 0\<rparr>
                        | None \<Rightarrow> Result_zero), Update cl u, Some u, [u]) \<and>
             map_lookup (Annotations u) (AnnotationSecretType (keys C)) = Some ''string'' \<and>
             map_lookup (Annotations u) (AnnotationSecretAutoGeneratedAt (keys C)) = Some (Now cl) \<and>
             Data u = Data d \<and>
             map_lookup (Annotations d) (AnnotationSecretType (keys C)) = Some ''string'' \<and>
             Annotations s \<noteq> Annotations d"
proof -
  let ?T = "AnnotationSecretType (keys C)"
  let ?desired = "s\<lparr>Annotations := Some (m(?T \<mapsto> TypeString)),
                     Data := (if Data s = None then Some Map.empty else Data s)\<rparr>"
  obtain m' where m': "Annotations d = Some m'"
    using generateData_annotations_not_nil [OF assms(6)] by auto
  have "map_lookup (Annotations d) ?T = map_lookup (Annotations ?desired) ?T"
    using generateData_annotations_other [OF assms(6), of ?T] distinct_keysD(5,6) [OF assms(1)]
    by simp
  then have typed: "map_lookup (Annotations d) ?T = Some TypeString"
    by (simp add: map_lookup_def)
  have "map_lookup (Annotations s) ?T \<noteq> Some TypeString"
    using Validate_TypeString_iff [OF assms(5)]
    by (auto simp: map_index_string_def split: option.splits)
  then have differs: "map_lookup (Annotations s) ?T \<noteq> map_lookup (Annotations d) ?T"
    using typed by simp
  let ?u = "d\<lparr>Annotations := Some (m'(AnnotationSecretAutoGeneratedAt (keys C) \<mapsto> Now cl))\<rparr>"
  have "Reconcile C cl r = persist C cl s d"
    using Reconcile_defaulted [OF assms(2,5,3), of r] assms(4,6) by simp
  then have run: "Reconcile C cl r =
               Return ((case Update cl ?u of Some err \<Rightarrow> \<lparr>Requeue = True, RequeueAfter = 0\<rparr>
                        | None \<Rightarrow> Result_zero), Update cl ?u, Some ?u, [?u])"
    using persist_changed [OF differs m', of C cl] by simp
  have "map_lookup (Annotations ?u) ?T = Some ''string''"
    using typed m' distinct_keysD(8) [OF assms(1)]
    by (simp add: map_lookup_def TypeString_def)
  moreover have "map_lookup (Annotations ?u) (AnnotationSecretAutoGeneratedAt (keys C)) = Some (Now cl)"
    by (simp add: map_lookup_def)
  moreover have "Data ?u = Data d"
    by simp
  moreover have "map_lookup (Annotations d) ?T = Some ''string''"
    using typed by (simp add: TypeString_def)
  moreover have "Annotations s \<noteq> Annotations d"
    using differs by auto
  ultimately show ?thesis
    using run by blast
qed

lemma persist_example:
  assumes "map_lookup (Annotations s) k \<noteq> map_lookup (Annotations d) k"
    and "Annotations d = Some m"
  shows "persist example_config (example_client s0) s d =
     Return (Result_zero, None,
       Some (d\<lparr>Annotations := Some (m(''autogenerate-generated-at'' \<mapsto> ''2021-01-01T00:00:00Z''))\<rparr>),
       [d\<lparr>Annotations := Some (m(''autogenerate-generated-at'' \<mapsto> ''2021-01-01T00:00:00Z''))\<rparr>])"
  using persist_changed [OF assms, of example_config "example_client s0"]
  by (simp add: example_client_def example_config_simps example_keys_simps)

lemma generateData_typeless:
  "generateData example_config
     (typeless_secret\<lparr>Annotations := Some ([''autogenerate'' \<mapsto> ''x'']
                           (AnnotationSecretType (keys example_config) \<mapsto> TypeString)),
        Data := (if Data typeless_secret = None then Some Map.empty else Data typeless_secret)\<rparr>) 0 =
   Return (Result_zero, None,
     \<lparr>Annotations = Some [''autogenerate'' \<mapsto> ''x'', ''type'' \<mapsto> ''string''],
      Data = Some [''x'' \<mapsto> bytes_of_string ''v'']\<rparr>, 0)"
  by (simp add: generateData_eval typeless_secret_def TypeString_def)

theorem Reconcile_defaults_type_and_persists_witness:
  "distinct_keys (keys example_config) \<and>
   Get (example_client typeless_secret) = Found typeless_secret \<and>
   Annotations typeless_secret = Some [''autogenerate'' \<mapsto> ''x''] \<and>
   Validate (map_index_string (Annotations typeless_secret)
               (AnnotationSecretType (keys example_config))) = Some (InvalidType []) \<and>
   Reconcile example_config (example_client typeless_secret) 0 =
     Return (Result_zero, None, Some typeless_after, [typeless_after]) \<and>
   Data typeless_after = Data typeless_secret"
proof -
  have get: "Get (example_client typeless_secret) = Found typeless_secret"
    by (simp add: example_client_def)
  have anns: "Annotations typeless_secret = Some [''autogenerate'' \<mapsto> ''x'']"
    by (simp add: typeless_secret_def)
  have present: "[''autogenerate'' \<mapsto> ''x''] (AnnotationSecretAutoGenerate (keys example_config)) \<noteq> None"
    by (simp add: example_config_simps example_keys_simps)
  have invalid: "Validate (map_index_string (Annotations typeless_secret)
               (AnnotationSecretType (keys example_config))) = Some (InvalidType [])"
    by (simp add: typeless_secret_def map_index_string_def map_lookup_def example_config_simps
        example_keys_simps Validate_empty)
  then have invalid': "Validate (map_index_string (Annotations typeless_secret)
               (AnnotationSecretType (keys example_config))) \<noteq> None"
    by simp
  have dk: "distinct_keys (keys example_config)"
    by (simp add: example_config_simps distinct_example_keys)
  obtain u where run: "Reconcile example_config (example_client typeless_secret) 0 =
               Return ((case Update (example_client typeless_secret) u of
                          Some err \<Rightarrow> \<lparr>Requeue = True, RequeueAfter = 0\<rparr>
                        | None \<Rightarrow> Result_zero), Update (example_client typeless_secret) u, Some u, [u])"
    using Reconcile_defaults_type_and_persists
      [OF dk get anns present invalid' generateData_typeless]
    by blast
  have data: "Data typeless_after = Data typeless_secret"
    by (simp add: typeless_after_def typeless_secret_def)
  have "Reconcile example_config (example_client typeless_secret) 0 =
     Return (Result_zero, None, Some typeless_after, [typeless_after])"
    using Reconcile_defaulted [OF get invalid' anns, of 0] present generateData_typeless
      persist_example [of typeless_secret "''type''"
        "\<lparr>Annotations = Some [''autogenerate'' \<mapsto> ''x'', ''type'' \<mapsto> ''string''],
          Data = Some [''x'' \<mapsto> bytes_of_string ''v'']\<rparr>"
        "[''autogenerate'' \<mapsto> ''x'', ''type'' \<mapsto> ''string'']" typeless_secret]
    by (simp add: typeless_secret_def typeless_after_def map_lookup_def)
  then show ?thesis
    using dk get anns invalid run data by blast
qed

text \<open>
  A resource whose type annotation holds an invalid value that is not empty is not
  skipped, even without an autogenerate annotation: the pass defaults it to the String
  type, generates a value under the empty field name, sets the secure marker and updates
  the resource.
\<close>

lemma generateData_bogus:
  "generateData example_config
     (bogus_secret\<lparr>Annotations := Some ([''type'' \<mapsto> ''bogus'']
                           (AnnotationSecretType (keys example_config) \<mapsto> TypeString)),
        Data := (if Data bogus_secret = None then Some Map.empty else Data bogus_secret)\<rparr>) 0 =
   Return (Result_zero, None,
     \<lparr>Annotations = Some [''type'' \<mapsto> ''string'', ''secure'' \<mapsto> ''yes''],
      Data = Some [[] \<mapsto> bytes_of_string ''AAECAwQF'']\<rparr>, 1)"
  by (simp add: generateData_eval bogus_secret_def TypeString_def)

theorem Reconcile_invalid_type_counterexample:
  "map_lookup (Annotations bogus_secret) (AnnotationSecretType (keys example_config)) = Some ''bogus'' \<and>
   Validate ''bogus'' = Some (InvalidType ''bogus'') \<and>
   map_lookup (Annotations bogus_secret) (AnnotationSecretAutoGenerate (keys example_config)) = None \<and>
   Reconcile example_config (example_client bogus_secret) 0 =
     Return (Result_zero, None, Some bogus_after, [bogus_after])"
proof -
  have get: "Get (example_client bogus_secret) = Found bogus_secret"
    by (simp add: example_client_def)
  have anns: "Annotations bogus_secret = Some [''type'' \<mapsto> ''bogus'']"
    by (simp add: bogus_secret_def)
  have tyval: "map_index_string (Annotations bogus_secret) (AnnotationSecretType (keys example_config)) = ''bogus''"
    by (simp add: bogus_secret_def map_index_string_def map_lookup_def example_config_simps
        example_keys_simps)
  have bogus: "Validate ''bogus'' = Some (InvalidType ''bogus'')"
    by (simp add: Validate_def TypeString_def TypeSSHKeypair_def TypeBasicAuth_def)
  have invalid: "Validate (map_index_string (Annotations bogus_secret)
                   (AnnotationSecretType (keys example_config))) \<noteq> None"
    using tyval bogus by simp
  have "Reconcile example_config (example_client bogus_secret) 0 =
     Return (Result_zero, None, Some bogus_after, [bogus_after])"
    using Reconcile_defaulted [OF get invalid anns, of 0] tyval generateData_bogus
      persist_example [of bogus_secret "''type''"
        "\<lparr>Annotations = Some [''type'' \<mapsto> ''string'', ''secure'' \<mapsto> ''yes''],
          Data = Some [[] \<mapsto> bytes_of_string ''AAECAwQF'']\<rparr>"
        "[''type'' \<mapsto> ''string'', ''secure'' \<mapsto> ''yes'']" bogus_secret]
    by (simp add: bogus_secret_def bogus_after_def map_lookup_def)
  moreover have "map_lookup (Annotations bogus_secret) (AnnotationSecretType (keys example_config)) = Some ''bogus''"
    by (simp add: bogus_secret_def map_lookup_def example_config_simps example_keys_simps)
  moreover have "map_lookup (Annotations bogus_secret) (AnnotationSecretAutoGenerate (keys example_config)) = None"
    by (simp add: bogus_secret_def map_lookup_def example_config_simps example_keys_simps)
  ultimately show ?thesis
    using bogus by blast
qed

text \<open>
  When \<^verbatim>\<open>generateData\<close> returns an error the pass ends before the comparison: on a
  resource without type whose autogenerate annotation is \<^verbatim>\<open>a,a\<close> the type is written
  into the desired copy and nothing is handed to \<^verbatim>\<open>client.Update\<close>.
\<close>

lemma generateData_dup_desired:
  "generateData example_config
     (dup_secret\<lparr>Annotations := Some ([''autogenerate'' \<mapsto> ''a,a'']
                           (AnnotationSecretType (keys example_config) \<mapsto> TypeString)),
        Data := (if Data dup_secret = None then Some Map.empty else Data dup_secret)\<rparr>) 0 =
   Return (Result_zero, Some (DuplicateElement ''a''), dup_desired, 0)"
  by (simp add: generateData_eval dup_secret_def dup_desired_def TypeString_def)

theorem Reconcile_no_update_counterexample:
  "map_lookup (Annotations dup_secret) (AnnotationSecretType (keys example_config)) = None \<and>
   map_lookup (Annotations dup_secret) (AnnotationSecretAutoGenerate (keys example_config)) =
     Some ''a,a'' \<and>
   Reconcile example_config (example_client dup_secret) 0 =
     Return (Result_zero, Some (DuplicateElement ''a''), Some dup_desired, [])"
proof -
  have get: "Get (example_client dup_secret) = Found dup_secret"
    by (simp add: example_client_def)
  have anns: "Annotations dup_secret = Some [''autogenerate'' \<mapsto> ''a,a'']"
    by (simp add: dup_secret_def)
  have tyval: "map_index_string (Annotations dup_secret) (AnnotationSecretType (keys example_config)) = []"
    by (simp add: dup_secret_def map_index_string_def map_lookup_def example_config_simps
        example_keys_simps)
  have invalid: "Validate (map_index_string (Annotations dup_secret)
                   (AnnotationSecretType (keys example_config))) \<noteq> None"
    using tyval by (simp add: Validate_empty)
  have present: "[''autogenerate'' \<mapsto> ''a,a''] (AnnotationSecretAutoGenerate (keys example_config)) \<noteq> None"
    by (simp add: example_config_simps example_keys_simps)
  have "Reconcile example_config (example_client dup_secret) 0 =
     Return (Result_zero, Some (DuplicateElement ''a''), Some dup_desired, [])"
    using Reconcile_defaulted [OF get invalid anns, of 0] present generateData_dup_desired
    by simp
  moreover have "map_lookup (Annotations dup_secret) (AnnotationSecretType (keys example_config)) = None"
    by (simp add: dup_secret_def map_lookup_def example_config_simps example_keys_simps)
  moreover have "map_lookup (Annotations dup_secret) (AnnotationSecretAutoGenerate (keys example_config)) =
     Some ''a,a''"
    by (simp add: dup_secret_def map_lookup_def example_config_simps example_keys_simps)
  ultimately show ?thesis
    by blast
qed

section \<open>Retry directive\<close>

lemma generate_loop_failure:
  assumes "generate_loop C regenKeys len isb pre inst reads cnt = Return (None, sA, rA, cA)"
    and "\<not> retained regenKeys sA key"
    and "generateRandomSecret C sA key len isb rA = Return (Some e, sB, rB)"
  shows "generate_loop C regenKeys len isb (pre @ key # post) inst reads cnt =
           Return (Some e, sA, Suc rA, cA + 1) \<and> (\<exists>msg. e = EntropyError msg)"
proof -
  have same: "sB = sA \<and> rB = Suc rA \<and> (\<exists>msg. e = EntropyError msg)"
    using generateRandomSecret_Return_error [OF assms(3)] by blast
  have "generate_loop C regenKeys len isb (key # post) sA rA cA = Return (Some e, sA, Suc rA, cA + 1)"
    using assms(2,3) same by (auto simp: retained_def)
  then show ?thesis
    using assms(1) same by (simp add: generate_loop_append)
qed

text \<open>
  C7 (amended): on a pass whose field list holds no duplicate and whose length parses,
  whenever the generation of a value for a declared field fails, \<^verbatim>\<open>generateData\<close> returns
  that error, an error of the entropy source, with a retry directive that asks for a
  delay of 30 seconds, and the instance it leaves is the one the earlier iterations of the
  loop produced, so every field generated earlier keeps its new value; when the loop
  ends without an error and the annotation map is allocated, \<^verbatim>\<open>generateData\<close> returns the
  zero-value retry directive and no error.
\<close>

theorem generateData_retry_directive:
  assumes "distinct (genKeys_of C s)"
    and "pass_length C (consumed C s) = Inr (len, isb)"
  shows "(genKeys_of C s = pre @ key # post \<and>
          generate_loop C (regeneration_set C s) len isb pre (consumed C s) r 0 =
            Return (None, sA, rA, cA) \<and>
          \<not> retained (regeneration_set C s) sA key \<and>
          generateRandomSecret C sA key len isb rA = Return (Some e, sB, rB) \<longrightarrow>
            generateData C s r =
              Return (\<lparr>Requeue = False, RequeueAfter = Second * 30\<rparr>, Some e, sA, Suc rA) \<and>
            (\<exists>msg. e = EntropyError msg) \<and>
            (\<forall>k \<in> set pre. \<not> retained (regeneration_set C s) s k \<longrightarrow>
               (\<exists>i v. r \<le> i \<and> i < rA \<and>
                  generated_value C (Annotations (consumed C s)) len isb i = Some v \<and>
                  map_lookup (Data sA) k = Some v))) \<and>
         (Annotations s \<noteq> None \<and>
          generate_loop C (regeneration_set C s) len isb (genKeys_of C s) (consumed C s) r 0 =
            Return (None, sZ, rZ, cZ) \<longrightarrow>
            (\<exists>s'. generateData C s r = Return (Result_zero, None, s', rZ) \<and> Data s' = Data sZ))"
proof (intro conjI impI)
  have gd: "generateData C s r = regenerateKeysWhereRequired C s (genKeys_of C s) r"
    using assms(1) by (rule generateData_distinct)
  assume fails: "genKeys_of C s = pre @ key # post \<and>
          generate_loop C (regeneration_set C s) len isb pre (consumed C s) r 0 =
            Return (None, sA, rA, cA) \<and>
          \<not> retained (regeneration_set C s) sA key \<and>
          generateRandomSecret C sA key len isb rA = Return (Some e, sB, rB)"
  then have split: "genKeys_of C s = pre @ key # post"
    and before: "generate_loop C (regeneration_set C s) len isb pre (consumed C s) r 0 =
            Return (None, sA, rA, cA)"
    and needed: "\<not> retained (regeneration_set C s) sA key"
    and call: "generateRandomSecret C sA key len isb rA = Return (Some e, sB, rB)"
    by simp_all
  have loop: "generate_loop C (regeneration_set C s) len isb (genKeys_of C s) (consumed C s) r 0 =
           Return (Some e, sA, Suc rA, cA + 1)"
    and entropy: "\<exists>msg. e = EntropyError msg"
    using generate_loop_failure [OF before needed call, of post] split by simp_all
  show "generateData C s r =
          Return (\<lparr>Requeue = False, RequeueAfter = Second * 30\<rparr>, Some e, sA, Suc rA)"
    by (simp add: gd regenerateKeysWhereRequired_unfold assms(2) loop)
  show "\<exists>msg. e = EntropyError msg"
    using entropy .
  show "\<forall>k \<in> set pre. \<not> retained (regeneration_set C s) s k \<longrightarrow>
               (\<exists>i v. r \<le> i \<and> i < rA \<and>
                  generated_value C (Annotations (consumed C s)) len isb i = Some v \<and>
                  map_lookup (Data sA) k = Some v)"
  proof (intro ballI impI)
    fix k
    assume "k \<in> set pre" and "\<not> retained (regeneration_set C s) s k"
    then show "\<exists>i v. r \<le> i \<and> i < rA \<and>
                  generated_value C (Annotations (consumed C s)) len isb i = Some v \<and>
                  map_lookup (Data sA) k = Some v"
      using generate_loop_generated [OF before, of k] by (simp add: retained_consumed)
  qed
next
  assume finished: "Annotations s \<noteq> None \<and>
          generate_loop C (regeneration_set C s) len isb (genKeys_of C s) (consumed C s) r 0 =
            Return (None, sZ, rZ, cZ)"
  then have loop: "generate_loop C (regeneration_set C s) len isb (genKeys_of C s) (consumed C s) r 0 =
            Return (None, sZ, rZ, cZ)"
    by simp
  have "Annotations sZ \<noteq> None"
    using generate_loop_annotations [OF loop] finished by (simp add: Annotations_consumed_nil)
  then obtain mz where "Annotations sZ = Some mz"
    by auto
  then have a: "map_assign (Annotations sZ) (AnnotationSecretSecure (keys C)) ''yes'' =
                  Return (Some (mz(AnnotationSecretSecure (keys C) \<mapsto> ''yes'')))"
    by (simp add: map_assign_def)
  have gd: "generateData C s r = regenerateKeysWhereRequired C s (genKeys_of C s) r"
    using assms(1) by (rule generateData_distinct)
  show "\<exists>s'. generateData C s r = Return (Result_zero, None, s', rZ) \<and> Data s' = Data sZ"
    by (simp add: gd regenerateKeysWhereRequired_unfold assms(2) loop a)
qed

lemma flaky_config_simps:
  "keys flaky_config = example_keys"
  "RegenerateInsecure flaky_config = False"
  "DefaultLength flaky_config = 8"
  "DefaultEncoding flaky_config = ''base64''"
  "ParseByteLength flaky_config = example_ParseByteLength"
  "entropy flaky_config 0 = Inr (\<lambda>j. of_nat j)"
  "0 < i \<Longrightarrow> entropy flaky_config i = Inl ''entropy source unavailable''"
  by (simp_all add: example_config_def flaky_config_def)

lemma flaky_read_0: "rand_Read flaky_config 0 (nat 8) = Inr [0, 1, 2, 3, 4, 5, 6, 7]"
  by (simp add: rand_Read_def flaky_config_simps upt_rec)

lemma GenerateRandomString_flaky_0:
  "GenerateRandomString flaky_config 8 ''base64'' False 0 =
     Return (bytes_of_string ''AAECAwQF'', None, Suc 0)"
  using GenerateRandomString_trimmed [OF flaky_read_0, of "''base64''"]
  by (simp add: example_base64_0)

lemma GenerateRandomString_flaky_Suc:
  "0 < i \<Longrightarrow> GenerateRandomString flaky_config 8 encoding lenBytes i =
     Return ([], Some (EntropyError ''entropy source unavailable''), Suc i)"
  by (simp add: GenerateRandomString_def rand_Read_def flaky_config_simps)

lemmas flaky_eval =
  generateData_eval flaky_config_simps GenerateRandomString_flaky_0
  GenerateRandomString_flaky_Suc consumed_def

theorem generateData_retry_directive_witness:
  "distinct (genKeys_of flaky_config pair_secret) \<and>
   pass_length flaky_config (consumed flaky_config pair_secret) = Inr (8, False) \<and>
   genKeys_of flaky_config pair_secret = [''x''] @ ''y'' # [] \<and>
   generate_loop flaky_config (regeneration_set flaky_config pair_secret) 8 False [''x'']
     (consumed flaky_config pair_secret) 0 0 = Return (None, pair_partial, 1, 1) \<and>
   \<not> retained (regeneration_set flaky_config pair_secret) pair_partial ''y'' \<and>
   generateRandomSecret flaky_config pair_partial ''y'' 8 False 1 =
     Return (Some (EntropyError ''entropy source unavailable''), pair_partial, 2) \<and>
   generateData flaky_config pair_secret 0 =
     Return (\<lparr>Requeue = False, RequeueAfter = Second * 30\<rparr>,
             Some (EntropyError ''entropy source unavailable''), pair_partial, 2) \<and>
   map_lookup (Data pair_partial) ''x'' = Some (bytes_of_string ''AAECAwQF'') \<and>
   distinct (genKeys_of example_config xy_secret) \<and>
   pass_length example_config (consumed example_config xy_secret) = Inr (8, False) \<and>
   Annotations xy_secret \<noteq> None \<and>
   generate_loop example_config (regeneration_set example_config xy_secret) 8 False
     (genKeys_of example_config xy_secret) (consumed example_config xy_secret) 0 0 =
     Return (None, xy_after, 1, 1) \<and>
   generateData example_config xy_secret 0 = Return (Result_zero, None, xy_after, 1)"
proof -
  have h1: "distinct (genKeys_of flaky_config pair_secret)"
    and h2: "pass_length flaky_config (consumed flaky_config pair_secret) = Inr (8, False)"
    and h3: "genKeys_of flaky_config pair_secret = [''x''] @ ''y'' # []"
    and h4: "generate_loop flaky_config (regeneration_set flaky_config pair_secret) 8 False [''x'']
     (consumed flaky_config pair_secret) 0 0 = Return (None, pair_partial, 1, 1)"
    and h5: "\<not> retained (regeneration_set flaky_config pair_secret) pair_partial ''y''"
    and h6: "generateRandomSecret flaky_config pair_partial ''y'' 8 False 1 =
     Return (Some (EntropyError ''entropy source unavailable''), pair_partial, 2)"
    by (simp_all add: flaky_eval pair_secret_def pair_partial_def)
  have g1: "distinct (genKeys_of example_config xy_secret)"
    and g2: "pass_length example_config (consumed example_config xy_secret) = Inr (8, False)"
    and g3: "Annotations xy_secret \<noteq> None"
    and g4: "generate_loop example_config (regeneration_set example_config xy_secret) 8 False
     (genKeys_of example_config xy_secret) (consumed example_config xy_secret) 0 0 =
     Return (None, xy_after, 1, 1)"
    by (simp_all add: generateData_eval consumed_def xy_secret_def xy_after_def)
  have x: "map_lookup (Data pair_partial) ''x'' = Some (bytes_of_string ''AAECAwQF'')"
    by (simp add: pair_partial_def map_lookup_def)
  have fails: "generateData flaky_config pair_secret 0 =
     Return (\<lparr>Requeue = False, RequeueAfter = Second * 30\<rparr>,
             Some (EntropyError ''entropy source unavailable''), pair_partial, 2)"
    using generateData_retry_directive
      [where C = flaky_config and s = pair_secret and r = 0 and len = 8 and isb = False
         and pre = "[''x'']" and key = "''y''" and post = "[]" and sA = pair_partial
         and rA = 1 and cA = 1 and e = "EntropyError ''entropy source unavailable''"
         and sB = pair_partial and rB = 2, OF h1 h2]
      h3 h4 h5 h6
    by simp
  have succeeds: "generateData example_config xy_secret 0 = Return (Result_zero, None, xy_after, 1)"
    by (rule generateData_xy)
  show ?thesis
    using h1 h2 h3 h4 h5 h6 fails x g1 g2 g3 g4 succeeds by blast
qed

text \<open>
  A pass that is stopped by the validation of the field list reads no entropy, so no
  generation fails in it, and yet it returns an error.
\<close>

theorem generateData_validation_error_counterexample:
  "rand_Read example_config 0 (nat 8) = Inr [0, 1, 2, 3, 4, 5, 6, 7] \<and>
   generateData example_config dup_secret 0 =
     Return (Result_zero, Some (DuplicateElement ''a''), dup_secret, 0)"
  using example_read_0 by (simp add: generateData_eval dup_secret_def)

section \<open>Totality\<close>

text \<open>
  \<^verbatim>\<open>generateData\<close> returns, rather than panics, on every instance whose two maps are
  allocated, when the length that the pass uses is not negative.
\<close>

lemma GenerateRandomString_returns:
  assumes "0 \<le> len"
  shows "\<exists>out. GenerateRandomString C len encoding lenBytes reads = Return out"
proof (cases "rand_Read C reads (nat len)")
  case (Inl err)
  then show ?thesis
    using assms by (simp add: GenerateRandomString_error)
next
  case (Inr b)
  have "length b = nat len"
    using Inr by (rule length_rand_Read)
  then have "nat len \<le> length (encodedString encoding b)"
    using length_encodedString_ge [of b encoding] by simp
  then show ?thesis
    using assms Inr by (auto simp: GenerateRandomString_def)
qed

lemma generateRandomSecret_returns:
  assumes "0 \<le> len" and "Data inst \<noteq> None"
  shows "\<exists>err inst' reads'.
           generateRandomSecret C inst key len isb reads = Return (err, inst', reads') \<and>
           Data inst' \<noteq> None"
proof -
  obtain v e r1 where g: "GenerateRandomString C len
      (fst (getEncodingFromAnnotation (keys C) (DefaultEncoding C) (Annotations inst))) isb reads =
      Return (v, e, r1)"
    using GenerateRandomString_returns [OF assms(1)] by (metis prod_cases3)
  obtain m where m: "Data inst = Some m"
    using assms(2) by auto
  show ?thesis
    using g m
    by (cases e)
       (auto simp: generateRandomSecret_def getEncodingFromAnnotation_def
          getTemplateFromAnnotation_def map_assign_def split: option.splits)
qed

lemma generate_loop_returns:
  assumes "0 \<le> len"
  shows "Data inst \<noteq> None \<Longrightarrow>
         \<exists>out. generate_loop C regenKeys len isb ks inst reads cnt = Return out"
proof (induction ks arbitrary: inst reads cnt)
  case Nil
  then show ?case by simp
next
  case (Cons key rest)
  show ?case
  proof (cases "retained regenKeys inst key")
    case True
    then show ?thesis
      using Cons.IH [OF Cons.prems] by (simp add: retained_def)
  next
    case False
    obtain err inst' reads' where
      call: "generateRandomSecret C inst key len isb reads = Return (err, inst', reads')"
      and data: "Data inst' \<noteq> None"
      using generateRandomSecret_returns [OF assms Cons.prems] by blast
    show ?thesis
    proof (cases err)
      case None
      then show ?thesis
        using False call Cons.IH [OF data, of reads' "cnt + 1"] by (auto simp: retained_def)
    next
      case (Some e)
      then show ?thesis
        using False call by (auto simp: retained_def)
    qed
  qed
qed

lemma generateData_returns:
  assumes "Annotations s \<noteq> None" and "Data s \<noteq> None"
    and "\<forall>len isb. pass_length C (consumed C s) = Inr (len, isb) \<longrightarrow> 0 \<le> len"
  shows "\<exists>out. generateData C s r = Return out"
proof (cases "distinct (genKeys_of C s)")
  case False
  then show ?thesis
    using generateData_duplicate [OF False, of r] by blast
next
  case True
  have gd: "generateData C s r = regenerateKeysWhereRequired C s (genKeys_of C s) r"
    using True by (rule generateData_distinct)
  show ?thesis
  proof (cases "pass_length C (consumed C s)")
    case (Inl msg)
    then show ?thesis
      by (simp add: gd regenerateKeysWhereRequired_unfold)
  next
    case (Inr p)
    obtain len isb where p: "p = (len, isb)"
      by (cases p) auto
    have len: "0 \<le> len"
      using assms(3) Inr p by simp
    have "Data (consumed C s) \<noteq> None"
      using assms(2) by (simp add: Data_consumed)
    then obtain e sZ rZ cZ where
      loop: "generate_loop C (regeneration_set C s) len isb (genKeys_of C s) (consumed C s) r 0 =
               Return (e, sZ, rZ, cZ)"
      using generate_loop_returns [OF len, of "consumed C s"] by (metis prod_cases4)
    have "Annotations sZ \<noteq> None"
      using generate_loop_annotations [OF loop] assms(1) by (simp add: Annotations_consumed_nil)
    then obtain mz where "Annotations sZ = Some mz"
      by auto
    then have a: "map_assign (Annotations sZ) (AnnotationSecretSecure (keys C)) ''yes'' =
                  Return (Some (mz(AnnotationSecretSecure (keys C) \<mapsto> ''yes'')))"
      by (simp add: map_assign_def)
    show ?thesis
      by (cases e) (simp_all add: gd regenerateKeysWhereRequired_unfold Inr p loop a)
  qed
qed

end
